theory Spec2Isabelle
  imports Main "HOL-Library.Multiset"
begin

section \<open>Data model\<close>

text \<open>
  The supervisor of \<^verbatim>\<open>daemon.go\<close>: the service registry \<^verbatim>\<open>services.list\<close>, the
  configuration watcher of \<^verbatim>\<open>startWatching\<close>, the control dispatcher \<^verbatim>\<open>serveConn\<close>
  and the boot and shutdown sequences of \<^verbatim>\<open>daemonMain\<close>.

  The types \<^verbatim>\<open>Service\<close>, \<^verbatim>\<open>Config\<close> and \<^verbatim>\<open>State\<close> and the methods on them are declared in
  files of the repository other than \<^verbatim>\<open>daemon.go\<close>; they are modelled from the
  specification, each under a comment that says so.
\<close>

text \<open>
  Modelled from the spec: the type \<^verbatim>\<open>State\<close> (declared outside \<^verbatim>\<open>daemon.go\<close>). The five
  named states are the ones the specification lists. \<^verbatim>\<open>StateInvalid\<close> stands for every
  other value of the underlying Go type, the values that reach the \<^verbatim>\<open>default\<close> branch
  of the switch in the \<^verbatim>\<open>list\<close> command.
\<close>

datatype state =
  StateStopped | StateStopping | StateStarting | StateStarted | StateFailed
  | StateInvalid nat

fun valid_state :: "state \<Rightarrow> bool" where
  "valid_state (StateInvalid n) = False"
| "valid_state s = True"

text \<open>
  Modelled from the spec: the type \<^verbatim>\<open>Config\<close> (declared outside \<^verbatim>\<open>daemon.go\<close>): source
  file identifier, priority, service name, and the launch parameters, which are opaque
  here.
\<close>

record config =
  File :: string
  Priority :: int
  ServiceName :: string
  Launch :: string

text \<open>
  Modelled from the spec: the type \<^verbatim>\<open>Service\<close> (declared outside \<^verbatim>\<open>daemon.go\<close>), with the
  fields that \<^verbatim>\<open>daemon.go\<close> reads and writes. \<open>Started\<close> is the start time, \<open>Err\<close>
  the text of the last error, and \<open>monitor\<close> says whether \<^verbatim>\<open>logger.monitor\<close> is non-nil.
\<close>

record service =
  Config :: config
  State :: state
  Started :: nat
  Restarts :: int
  Err :: string
  monitor :: bool

text \<open>
  Modelled from the spec: \<^verbatim>\<open>newService\<close> constructs a service in \<^verbatim>\<open>Stopped\<close>, and
  \<^verbatim>\<open>Name()\<close> is the service name that its configuration gives.
\<close>

definition newService :: "config \<Rightarrow> service" where
  "newService cfg =
     \<lparr>Config = cfg, State = StateStopped, Started = 0, Restarts = 0, Err = [],
      monitor = False\<rparr>"

definition Name :: "service \<Rightarrow> string" where
  "Name s = ServiceName (Config s)"

text \<open>
  The registry holds pointers. A pointer is an address, the heap maps addresses to the
  services they point to, and \<open>nxt\<close> is the address that the next \<^verbatim>\<open>newService\<close>
  returns: addresses number the services in the order of their creation.

  \<open>trace\<close> records the calls of \<^verbatim>\<open>Start()\<close>, \<^verbatim>\<open>Stop()\<close> and \<^verbatim>\<open>Sort()\<close> in the order in
  which they are made, and \<open>logs\<close> the lines given to the logger.
\<close>

type_synonym addr = nat

datatype call = CallStart addr | CallStop addr | CallSort

record daemon =
  list :: "addr list"
  heap :: "addr \<Rightarrow> service"
  nxt :: addr
  trace :: "call list"
  logs :: "string list"

text \<open>
  What the environment decides. \<open>Start_impl\<close> and \<open>Stop_impl\<close> are the bodies of
  \<^verbatim>\<open>Service.Start\<close> and \<^verbatim>\<open>Service.Stop\<close>: given the number of calls made before this one
  (so that the same service may succeed once and fail later) and the service, they
  return the error (\<open>None\<close> is \<^verbatim>\<open>nil\<close>) and the service as they leave it. The other fields
  are the helpers of the repository and of the standard library that \<^verbatim>\<open>daemon.go\<close>
  calls.
\<close>

record env =
  Start_impl :: "nat \<Rightarrow> service \<Rightarrow> string option \<times> service"
  Stop_impl :: "nat \<Rightarrow> service \<Rightarrow> string option \<times> service"
  shouldIgnoreFile :: "string \<Rightarrow> bool"
  ToLower :: "string \<Rightarrow> string"
  formatTime :: "nat \<Rightarrow> string"
  tabwriter :: "string \<Rightarrow> string"
  help_text :: string
  newLine :: string

text \<open>
  Modelled from the spec: \<^verbatim>\<open>Service.Start\<close> and \<^verbatim>\<open>Service.Stop\<close> (defined outside
  \<^verbatim>\<open>daemon.go\<close>) act on the service they are called on and on nothing else, and they
  never change its configuration, which is replaced only by the watcher.
\<close>

definition Start :: "env \<Rightarrow> addr \<Rightarrow> daemon \<Rightarrow> string option \<times> daemon" where
  "Start env a st =
     (let s = heap st a;
          r = Start_impl env (length (trace st)) s
      in (fst r,
          st\<lparr>heap := (heap st)(a := (snd r)\<lparr>Config := Config s\<rparr>),
             trace := trace st @ [CallStart a]\<rparr>))"

definition Stop :: "env \<Rightarrow> addr \<Rightarrow> daemon \<Rightarrow> string option \<times> daemon" where
  "Stop env a st =
     (let s = heap st a;
          r = Stop_impl env (length (trace st)) s
      in (fst r,
          st\<lparr>heap := (heap st)(a := (snd r)\<lparr>Config := Config s\<rparr>),
             trace := trace st @ [CallStop a]\<rparr>))"

section \<open>The registry order\<close>

text \<open>\<^verbatim>\<open>servicesByPriority.Less\<close>: the comparison that the sort uses.\<close>

definition prio :: "daemon \<Rightarrow> addr \<Rightarrow> int" where
  "prio st a = Priority (Config (heap st a))"

definition Less :: "daemon \<Rightarrow> addr \<Rightarrow> addr \<Rightarrow> bool" where
  "Less st a b = (prio st a < prio st b)"

text \<open>
  \<^verbatim>\<open>sort.Stable\<close> of the standard library: the elements in ascending order of \<open>lt\<close>,
  elements that \<open>lt\<close> does not separate in their original order. There is one such
  arrangement; insertion from the right computes it.
\<close>

fun insertStable :: "('a \<Rightarrow> 'a \<Rightarrow> bool) \<Rightarrow> 'a \<Rightarrow> 'a list \<Rightarrow> 'a list" where
  "insertStable lt x [] = [x]"
| "insertStable lt x (y # ys) =
     (if lt y x then y # insertStable lt x ys else x # y # ys)"

fun sortStable :: "('a \<Rightarrow> 'a \<Rightarrow> bool) \<Rightarrow> 'a list \<Rightarrow> 'a list" where
  "sortStable lt [] = []"
| "sortStable lt (x # xs) = insertStable lt x (sortStable lt xs)"

text \<open>\<^verbatim>\<open>servicesByPriority(services.list).Sort()\<close>\<close>

definition Sort :: "daemon \<Rightarrow> daemon" where
  "Sort st = st\<lparr>list := sortStable (Less st) (list st), trace := trace st @ [CallSort]\<rparr>"

section \<open>Boot\<close>

definition no_config :: config where
  "no_config = \<lparr>File = [], Priority = 0, ServiceName = [], Launch = []\<rparr>"

text \<open>The state before \<^verbatim>\<open>daemonMain\<close> runs: an empty registry, nothing allocated.\<close>

definition init :: daemon where
  "init = \<lparr>list = [], heap = (\<lambda>a. newService no_config), nxt = 0, trace = [], logs = []\<rparr>"

text \<open>
  \<^verbatim>\<open>s := newService(cfg)\<close> followed by the store of the pointer \<open>s\<close> behind the
  services already in the list: \<^verbatim>\<open>services.list[ii] = s\<close> in \<^verbatim>\<open>daemonMain\<close>, where the
  slice is allocated at its final length and filled from the left (the slots not yet
  filled are read by nobody while the lock is held), and
  \<^verbatim>\<open>services.list = append(services.list, s)\<close> in the watcher.
\<close>

definition alloc :: "config \<Rightarrow> daemon \<Rightarrow> daemon" where
  "alloc cfg st =
     st\<lparr>heap := (heap st)(nxt st := newService cfg), nxt := Suc (nxt st),
        list := list st @ [nxt st]\<rparr>"

text \<open>
  The loop of \<^verbatim>\<open>daemonMain\<close> over the configurations: \<^verbatim>\<open>s := newService(v)\<close>,
  \<^verbatim>\<open>services.list[ii] = s\<close>, \<^verbatim>\<open>s.Start()\<close>.
\<close>

fun boot_loop :: "env \<Rightarrow> config list \<Rightarrow> daemon \<Rightarrow> daemon" where
  "boot_loop env [] st = st"
| "boot_loop env (v # vs) st = boot_loop env vs (snd (Start env (nxt st) (alloc v st)))"

text \<open>
  \<^verbatim>\<open>daemonMain\<close> from \<^verbatim>\<open>services.Lock()\<close> to \<^verbatim>\<open>services.Unlock()\<close>: the loop, then the sort.
\<close>

definition boot :: "env \<Rightarrow> config list \<Rightarrow> daemon" where
  "boot env configs = Sort (boot_loop env configs init)"

section \<open>The configuration watcher\<close>

text \<open>
  A file event as the watcher loop sees it: \<open>base\<close> is \<^verbatim>\<open>filepath.Base(ev.Name)\<close>, the
  four flags are what \<^verbatim>\<open>IsCreate\<close>, \<^verbatim>\<open>IsDelete\<close>, \<^verbatim>\<open>IsRename\<close> and \<^verbatim>\<open>IsModify\<close> return (an
  event may carry several), \<open>parsed\<close> is what \<^verbatim>\<open>ParseConfig(name)\<close> returns while the
  event is handled, and \<open>printed\<close> is how the event prints.
\<close>

record event =
  base :: string
  IsCreate :: bool
  IsDelete :: bool
  IsRename :: bool
  IsModify :: bool
  parsed :: config
  printed :: string

definition Debugf :: "string \<Rightarrow> daemon \<Rightarrow> daemon" where
  "Debugf line st = st\<lparr>logs := logs st @ [line]\<rparr>"

text \<open>\<^verbatim>\<open>log.Errorf\<close> writes to the same log.\<close>

definition Errorf :: "string \<Rightarrow> daemon \<Rightarrow> daemon" where
  "Errorf line st = st\<lparr>logs := logs st @ [line]\<rparr>"

text \<open>The case \<^verbatim>\<open>ev.IsCreate()\<close>.\<close>

definition on_create :: "env \<Rightarrow> config \<Rightarrow> daemon \<Rightarrow> daemon" where
  "on_create env cfg st =
     (let st1 = Debugf (''added service '' @ ServiceName cfg) st;
          s = nxt st1;
          st2 = alloc cfg st1;
          st3 = Sort st2
      in snd (Start env s st3))"

text \<open>
  The case \<^verbatim>\<open>ev.IsDelete() || ev.IsRename()\<close>: the loop over the indices, \<open>pre\<close> the
  elements already passed. The first service of that file is stopped if it is started
  and spliced out, and the loop breaks.
\<close>

fun delete_loop :: "env \<Rightarrow> string \<Rightarrow> addr list \<Rightarrow> addr list \<Rightarrow> daemon \<Rightarrow> daemon" where
  "delete_loop env name pre [] st = st"
| "delete_loop env name pre (a # rest) st =
     (if File (Config (heap st a)) = name then
        (let st1 = Debugf (''removed service '' @ Name (heap st a)) st;
             st2 = (if State (heap st1 a) = StateStarted then snd (Stop env a st1) else st1)
         in st2\<lparr>list := pre @ rest\<rparr>)
      else delete_loop env name (pre @ [a]) rest st)"

definition on_delete :: "env \<Rightarrow> string \<Rightarrow> daemon \<Rightarrow> daemon" where
  "on_delete env name st = delete_loop env name [] (list st) st"

text \<open>\<^verbatim>\<open>v.Config = cfg\<close>\<close>

definition reconfigure :: "addr \<Rightarrow> config \<Rightarrow> daemon \<Rightarrow> daemon" where
  "reconfigure v cfg st = st\<lparr>heap := (heap st)(v := (heap st v)\<lparr>Config := cfg\<rparr>)\<rparr>"

text \<open>
  The case \<^verbatim>\<open>ev.IsModify()\<close>: the loop over the services. At the first service of that
  file the loop breaks, at once if the configuration parsed is equal to the current one.
\<close>

fun modify_loop :: "env \<Rightarrow> string \<Rightarrow> config \<Rightarrow> addr list \<Rightarrow> daemon \<Rightarrow> daemon" where
  "modify_loop env name cfg [] st = st"
| "modify_loop env name cfg (a # rest) st =
     (if File (Config (heap st a)) = name then
        (if Config (heap st a) = cfg then st
         else
           (let st1 = Debugf (''changed service '' @ Name (heap st a) @ '''s configuration'') st;
                r = (if State (heap st1 a) = StateStarted
                     then (let q = Stop env a st1 in (fst q = None, snd q))
                     else (False, st1));
                start = fst r;
                st2 = snd r;
                st3 = reconfigure a cfg st2;
                st4 = Sort st3
            in if start then snd (Start env a st4) else st4))
      else modify_loop env name cfg rest st)"

definition on_modify :: "env \<Rightarrow> string \<Rightarrow> config \<Rightarrow> daemon \<Rightarrow> daemon" where
  "on_modify env name cfg st = modify_loop env name cfg (list st) st"

text \<open>
  One event of the watcher loop, from the test of \<^verbatim>\<open>shouldIgnoreFile\<close> to
  \<^verbatim>\<open>services.Unlock()\<close>.
\<close>

definition handle_event :: "env \<Rightarrow> event \<Rightarrow> daemon \<Rightarrow> daemon" where
  "handle_event env ev st =
     (let name = base ev in
      if shouldIgnoreFile env name then st
      else if IsCreate ev then on_create env (parsed ev) st
      else if IsDelete ev \<or> IsRename ev then on_delete env name st
      else if IsModify ev then on_modify env name (parsed ev) st
      else Errorf (''unhandled event: '' @ printed ev @ [CHR 0x0A]) st)"

fun handle_events :: "env \<Rightarrow> event list \<Rightarrow> daemon \<Rightarrow> daemon" where
  "handle_events env [] st = st"
| "handle_events env (ev # evs) st = handle_events env evs (handle_event env ev st)"

section \<open>Shutdown\<close>

text \<open>
  The loop \<^verbatim>\<open>for ii := len(services.list) - 1; ii >= 0; ii--\<close> of \<^verbatim>\<open>daemonMain\<close>: the
  services in the order in which their stop tasks are dispatched. The argument is
  \<^verbatim>\<open>ii + 1\<close>.
\<close>

fun dispatch_loop :: "daemon \<Rightarrow> nat \<Rightarrow> addr list" where
  "dispatch_loop st 0 = []"
| "dispatch_loop st (Suc ii) = list st ! ii # dispatch_loop st ii"

definition dispatched :: "daemon \<Rightarrow> addr list" where
  "dispatched st = dispatch_loop st (length (list st))"

text \<open>
  The stop tasks. Each is a goroutine that calls \<^verbatim>\<open>s.Stop()\<close>, drops its result and
  calls \<^verbatim>\<open>wg.Done()\<close>; the code fixes no order among them. \<open>todo\<close> are the tasks
  dispatched that have not run yet, in the order of their dispatch, \<open>wg\<close> is the
  counter of the wait group, and the schedule lists, for each step, the position in
  \<open>todo\<close> of the task that the scheduler runs next. The result is \<open>None\<close> where the
  schedule names no pending task, or where \<^verbatim>\<open>wg.Done()\<close> would make the counter
  negative, which panics.
\<close>

fun stop_tasks ::
  "env \<Rightarrow> nat list \<Rightarrow> addr list \<Rightarrow> int \<Rightarrow> daemon \<Rightarrow> (addr list \<times> int \<times> daemon) option" where
  "stop_tasks env [] todo wg st = Some (todo, wg, st)"
| "stop_tasks env (i # sched) todo wg st =
     (if i < length todo \<and> 0 < wg then
        stop_tasks env sched (take i todo @ drop (Suc i) todo) (wg - 1)
          (snd (Stop env (todo ! i) st))
      else None)"

text \<open>
  \<^verbatim>\<open>daemonMain\<close> from the second \<^verbatim>\<open>services.Lock()\<close> to its \<^verbatim>\<open>return nil\<close>:
  \<^verbatim>\<open>wg.Add(len(services.list))\<close>, the dispatch of the tasks, the tasks that the schedule
  runs, and \<^verbatim>\<open>wg.Wait()\<close>, which returns when the counter is zero. The result is \<open>None\<close>
  where \<^verbatim>\<open>wg.Wait()\<close> does not return after the tasks of the schedule: \<^verbatim>\<open>daemonMain\<close>
  is still waiting.
\<close>

definition shutdown :: "env \<Rightarrow> nat list \<Rightarrow> daemon \<Rightarrow> daemon option" where
  "shutdown env sched st =
     (case stop_tasks env sched (dispatched st) (int (length (list st))) st of
        None \<Rightarrow> None
      | Some r \<Rightarrow>
          (if fst (snd r) = 0 then Some (Debugf ''daemon exiting'' (snd (snd r))) else None))"

text \<open>The services in the order of their \<^verbatim>\<open>Start()\<close> and of their \<^verbatim>\<open>Stop()\<close> calls.\<close>

fun starts :: "call list \<Rightarrow> addr list" where
  "starts [] = []"
| "starts (CallStart a # cs) = a # starts cs"
| "starts (c # cs) = starts cs"

fun stops :: "call list \<Rightarrow> addr list" where
  "stops [] = []"
| "stops (CallStop a # cs) = a # stops cs"
| "stops (c # cs) = stops cs"

section \<open>The control protocol\<close>

definition NL :: string where
  "NL = [CHR 0x0A]"

definition TAB :: string where
  "TAB = [CHR 0x09]"

datatype tag = respOk | respErr | respEnd

type_synonym msg = "tag \<times> string"

text \<open>
  Modelled from the spec: \<^verbatim>\<open>encodeResponse\<close> (the codec is outside \<^verbatim>\<open>daemon.go\<close>) writes
  one tagged message to the connection and returns the error of the write. \<open>sent\<close>
  is the sequence of the messages given to it, and \<open>werr k\<close> the error that the write
  numbered \<open>k\<close> on the connection returns (\<open>None\<close> is \<^verbatim>\<open>nil\<close>).
\<close>

record conn =
  werr :: "nat \<Rightarrow> string option"
  sent :: "msg list"

definition encodeResponse :: "conn \<Rightarrow> tag \<Rightarrow> string \<Rightarrow> string option \<times> conn" where
  "encodeResponse c t s = (werr c (length (sent c)), c\<lparr>sent := sent c @ [(t, s)]\<rparr>)"

text \<open>\<^verbatim>\<open>startService\<close>: the error returned, the connection and the daemon after the call.\<close>

definition startService :: "env \<Rightarrow> conn \<Rightarrow> addr \<Rightarrow> daemon \<Rightarrow> string option \<times> conn \<times> daemon" where
  "startService env c s st =
     (let name = Name (heap st s);
          c1 = snd (encodeResponse c respOk (''starting '' @ name @ NL));
          r = Start env s st
      in case fst r of
           Some serr \<Rightarrow>
             (let w = encodeResponse c1 respErr (''error starting '' @ name @ '': '' @ serr @ NL)
              in (fst w, snd w, snd r))
         | None \<Rightarrow>
             (let w = encodeResponse c1 respOk (''started '' @ name @ NL)
              in (fst w, snd w, snd r)))"

text \<open>\<^verbatim>\<open>stopService\<close>: whether the service stopped, then as for \<^verbatim>\<open>startService\<close>.\<close>

definition stopService ::
  "env \<Rightarrow> conn \<Rightarrow> addr \<Rightarrow> daemon \<Rightarrow> bool \<times> string option \<times> conn \<times> daemon" where
  "stopService env c s st =
     (let name = Name (heap st s);
          c1 = snd (encodeResponse c respOk (''stopping '' @ name @ NL));
          r = Stop env s st
      in case fst r of
           Some serr \<Rightarrow>
             (let w = encodeResponse c1 respErr (''error stopping '' @ name @ '': '' @ serr @ NL)
              in (False, fst w, snd w, snd r))
         | None \<Rightarrow>
             (let w = encodeResponse c1 respOk (''stopped '' @ name @ NL)
              in (True, fst w, snd w, snd r)))"

text \<open>\<^verbatim>\<open>%d\<close> of \<^verbatim>\<open>fmt\<close>: an integer in decimal.\<close>

function showNat :: "nat \<Rightarrow> string" where
  "showNat n =
     (if n < 10 then [''0123456789'' ! n]
      else showNat (n div 10) @ [''0123456789'' ! (n mod 10)])"
  by pat_completeness auto
termination
  by (relation "measure id") auto

declare showNat.simps [simp del]

definition showInt :: "int \<Rightarrow> string" where
  "showInt i = (if i < 0 then ''-'' @ showNat (nat (- i)) else showNat (nat i))"

text \<open>
  The switch on \<^verbatim>\<open>v.State\<close> in the \<^verbatim>\<open>list\<close> command: the text printed for the service,
  \<open>None\<close> where the \<^verbatim>\<open>default\<close> branch panics.
\<close>

fun status :: "env \<Rightarrow> service \<Rightarrow> string option" where
  "status env v =
     (case State v of
        StateStopped \<Rightarrow> Some ''STOPPED''
      | StateStopping \<Rightarrow> Some ''STOPPING''
      | StateStarting \<Rightarrow> Some ''STARTING''
      | StateStarted \<Rightarrow>
          (if Restarts v > 0
           then Some (''RUNNING since '' @ formatTime env (Started v) @ '' - ''
                      @ showInt (Restarts v) @ '' restarts'')
           else Some (''RUNNING since '' @ formatTime env (Started v)))
      | StateFailed \<Rightarrow> Some (''FAILED - '' @ Err v)
      | StateInvalid n \<Rightarrow> None)"

text \<open>
  The loop of the \<^verbatim>\<open>list\<close> command over the services, \<open>w\<close> the text written to the
  tabwriter so far. \<open>Inl\<close> is the panic.
\<close>

fun list_rows :: "env \<Rightarrow> daemon \<Rightarrow> addr list \<Rightarrow> string \<Rightarrow> string + string" where
  "list_rows env st [] w = Inr w"
| "list_rows env st (v # vs) w =
     (let w1 = w @ Name (heap st v) @ TAB in
      case status env (heap st v) of
        None \<Rightarrow> Inl ''invalid state''
      | Some t \<Rightarrow> list_rows env st vs (w1 @ t @ TAB @ NL))"

text \<open>Reading \<^verbatim>\<open>b[i]\<close>: \<open>None\<close> where the index is out of range and the read panics.\<close>

definition index :: "'a list \<Rightarrow> int \<Rightarrow> 'a option" where
  "index b i = (if 0 \<le> i \<and> i < int (length b) then Some (b ! nat i) else None)"

text \<open>
  The function that the \<^verbatim>\<open>log\<close> command stores in \<^verbatim>\<open>st.logger.monitor\<close>, called with each
  line that the service logs. \<open>Inl\<close> is the panic.
\<close>

definition log_monitor :: "env \<Rightarrow> conn \<Rightarrow> string \<Rightarrow> string \<Rightarrow> string + conn" where
  "log_monitor env c prefix b =
     (let buf = ''['' @ prefix @ ''] '' @ b in
      case index b (int (length b) - 1) of
        None \<Rightarrow> Inl ''index out of range''
      | Some ch \<Rightarrow>
          (let buf1 = (if ch \<noteq> CHR 0x0A then buf @ newLine env else buf)
           in Inr (snd (encodeResponse c respOk buf1))))"

text \<open>
  The lines delivered while the subscription stands, each a prefix and its bytes: the
  panic, if a call panics, and the connection as the calls leave it.
\<close>

fun stream :: "env \<Rightarrow> (string \<times> string) list \<Rightarrow> conn \<Rightarrow> string option \<times> conn" where
  "stream env [] c = (None, c)"
| "stream env (l # ls) c =
     (case log_monitor env c (fst l) (snd l) of
        Inl p \<Rightarrow> (Some p, c)
      | Inr c1 \<Rightarrow> stream env ls c1)"

text \<open>How \<^verbatim>\<open>serveConn\<close> ends: it returns an error or \<^verbatim>\<open>nil\<close>, or the process panics.\<close>

datatype result = Return "string option" | Panic string

text \<open>The last line of \<^verbatim>\<open>serveConn\<close>: \<^verbatim>\<open>return encodeResponse(conn, respEnd, "")\<close>.\<close>

definition finish :: "conn \<Rightarrow> daemon \<Rightarrow> result \<times> conn \<times> daemon" where
  "finish c st = (let w = encodeResponse c respEnd [] in (Return (fst w), snd w, st))"

text \<open>The search for the service of that name, under the lock.\<close>

definition lookup :: "string \<Rightarrow> daemon \<Rightarrow> addr option" where
  "lookup n st = find (\<lambda>v. Name (heap st v) = n) (list st)"

definition set_monitor :: "addr \<Rightarrow> bool \<Rightarrow> daemon \<Rightarrow> daemon" where
  "set_monitor v b st = st\<lparr>heap := (heap st)(v := (heap st v)\<lparr>monitor := b\<rparr>)\<rparr>"

text \<open>
  The switch on \<^verbatim>\<open>cmd\<close>. \<open>target\<close> is the pointer \<^verbatim>\<open>st\<close> of the source, \<open>None\<close> for
  \<^verbatim>\<open>nil\<close>, and \<open>lines\<close> are the lines that the service logs while a subscription of
  the \<^verbatim>\<open>log\<close> command stands. In the cases that use the pointer it is not nil, since
  the lookup has set \<^verbatim>\<open>cmd\<close> to the empty string otherwise.
\<close>

definition switch_cmd ::
  "env \<Rightarrow> string \<Rightarrow> addr option \<Rightarrow> conn \<Rightarrow> (string \<times> string) list \<Rightarrow> daemon
   \<Rightarrow> result \<times> conn \<times> daemon" where
  "switch_cmd env cmd target c lines st =
     (if cmd = [] then finish c st
      else if cmd = ''start'' then
        (case target of
           None \<Rightarrow> (Panic ''nil pointer dereference'', c, st)
         | Some v \<Rightarrow>
             (if State (heap st v) = StateStarted then
                finish (snd (encodeResponse c respErr (Name (heap st v) @ '' is already running'' @ NL))) st
              else
                (let r = startService env c v st in finish (fst (snd r)) (snd (snd r)))))
      else if cmd = ''stop'' then
        (case target of
           None \<Rightarrow> (Panic ''nil pointer dereference'', c, st)
         | Some v \<Rightarrow>
             (if State (heap st v) \<noteq> StateStarted then
                finish (snd (encodeResponse c respErr (Name (heap st v) @ '' is not running'' @ NL))) st
              else
                (let r = stopService env c v st in finish (fst (snd (snd r))) (snd (snd (snd r))))))
      else if cmd = ''restart'' then
        (case target of
           None \<Rightarrow> (Panic ''nil pointer dereference'', c, st)
         | Some v \<Rightarrow>
             (let r = (if State (heap st v) = StateStarted then stopService env c v st
                       else (False, None, c, st));
                  stopped = fst r;
                  c1 = fst (snd (snd r));
                  st1 = snd (snd (snd r))
              in if stopped then
                   (let q = startService env c1 v st1 in finish (fst (snd q)) (snd (snd q)))
                 else finish c1 st1))
      else if cmd = ''list'' then
        (case list_rows env st (list st) (''SERVICE'' @ TAB @ ''STATUS'' @ TAB @ NL) of
           Inl p \<Rightarrow> (Panic p, c, st)
         | Inr w \<Rightarrow> finish (snd (encodeResponse c respOk (tabwriter env w @ NL))) st)
      else if cmd = ''log'' then
        (case target of
           None \<Rightarrow> (Panic ''nil pointer dereference'', c, st)
         | Some v \<Rightarrow>
             (if State (heap st v) \<noteq> StateStarted then
                finish (snd (encodeResponse c respErr (Name (heap st v) @ '' is not running'' @ NL))) st
              else if monitor (heap st v) then
                finish (snd (encodeResponse c respErr
                  (Name (heap st v) @ '' is already being monitored'' @ NL))) st
              else
                (let r = stream env lines c in
                 case fst r of
                   Some p \<Rightarrow> (Panic p, snd r, set_monitor v True st)
                 | None \<Rightarrow> (Return None, snd r, set_monitor v False (set_monitor v True st)))))
      else
        (let w = encodeResponse c respErr
                   (''unknown command '' @ cmd @ '' - '' @ help_text env @ NL)
         in case fst w of
              Some e \<Rightarrow> (Return (Some e), snd w, st)
            | None \<Rightarrow> finish (snd w) st))"

text \<open>
  \<^verbatim>\<open>serveConn\<close>. \<open>req\<close> is what \<^verbatim>\<open>decodeArgs\<close> returns: \<open>Inl\<close> its error, \<open>Inr\<close> the
  arguments.
\<close>

definition serveConn ::
  "env \<Rightarrow> conn \<Rightarrow> string + string list \<Rightarrow> (string \<times> string) list \<Rightarrow> daemon
   \<Rightarrow> result \<times> conn \<times> daemon" where
  "serveConn env c req lines st =
     (case req of
        Inl e \<Rightarrow> (Return (Some (''error decoding arguments: '' @ e)), c, st)
      | Inr args \<Rightarrow>
          (if length args > 0 then
             (let cmd = ToLower env (args ! 0) in
              if cmd = ''start'' \<or> cmd = ''stop'' \<or> cmd = ''restart'' \<or> cmd = ''log'' then
                (if length args \<noteq> 2 then
                   switch_cmd env [] None
                     (snd (encodeResponse c respErr
                        (''command '' @ cmd @ '' requires exactly one argument'' @ NL)))
                     lines st
                 else
                   (case lookup (args ! 1) st of
                      None \<Rightarrow>
                        switch_cmd env [] None
                          (snd (encodeResponse c respErr
                             (''no service named '' @ args ! 1 @ NL)))
                          lines st
                    | Some v \<Rightarrow> switch_cmd env cmd (Some v) c lines st))
              else switch_cmd env cmd None c lines st)
           else finish c st))"

section \<open>The goroutines and the quit signals\<close>

text \<open>
  A connection accepted by the server: the connection, what \<^verbatim>\<open>decodeArgs\<close> returns on
  it, and the lines that the service logs while a subscription of this connection
  stands.
\<close>

type_synonym request = "conn \<times> (string + string list) \<times> (string \<times> string) list"

text \<open>
  The daemon once \<^verbatim>\<open>daemonMain\<close> has started the watcher and the server. \<open>watcher_loop\<close>
  and \<open>server_loop\<close> say that the goroutine of \<^verbatim>\<open>startWatching\<close>, respectively the
  second goroutine of \<^verbatim>\<open>startServer\<close>, is in its loop. The four channels of the two
  \<^verbatim>\<open>quit\<close> values have capacity one: \<open>watcher_stop\<close> and \<open>server_stop\<close> say that the
  channel \<^verbatim>\<open>stop\<close> holds a value, \<open>watcher_stopped\<close> and \<open>server_stopped\<close> that the
  value of \<^verbatim>\<open>stopped\<close> has been sent, and \<open>acked\<close> that \<^verbatim>\<open>daemonMain\<close> has received both
  of them. \<open>conns\<close> is the channel of the accepted connections, and \<open>handlers\<close> are
  the goroutines started with \<^verbatim>\<open>go func() { serveConn(conn) }()\<close> that have not run yet.

  The last three fields observe the run: an event handled after the watcher has sent
  \<^verbatim>\<open>stopped\<close>, a connection dispatched after the server has, a \<^verbatim>\<open>serveConn\<close> run after
  the server has.
\<close>

record sys =
  dstate :: daemon
  signalled :: bool
  watcher_loop :: bool
  server_loop :: bool
  watcher_stop :: bool
  server_stop :: bool
  watcher_stopped :: bool
  server_stopped :: bool
  acked :: bool
  conns :: "request list"
  handlers :: "request list"
  exited :: bool
  late_event :: bool
  late_dispatch :: bool
  late_serve :: bool

definition sys_of :: "daemon \<Rightarrow> sys" where
  "sys_of d =
     \<lparr>dstate = d, signalled = False, watcher_loop = True, server_loop = True,
      watcher_stop = False, server_stop = False, watcher_stopped = False,
      server_stopped = False, acked = False, conns = [], handlers = [], exited = False,
      late_event = False, late_dispatch = False, late_serve = False\<rparr>"

text \<open>
  What the scheduler may let happen next.
  \<^item> \<open>Signal\<close>: \<^verbatim>\<open>daemonMain\<close> receives the signal and sends both \<^verbatim>\<open>stop\<close> values.
  \<^item> \<open>WatcherEvent\<close>: the \<^verbatim>\<open>select\<close> of the watcher takes a file event and handles it.
  \<^item> \<open>WatcherQuit\<close>: it takes \<^verbatim>\<open>q.stop\<close>: \<^verbatim>\<open>watcher.Close()\<close>, \<^verbatim>\<open>q.sendStopped()\<close>,
    \<^verbatim>\<open>break End\<close>.
  \<^item> \<open>Accept\<close>: the first goroutine of the server accepts a connection and sends it
    to \<^verbatim>\<open>conns\<close>, a channel of capacity ten.
  \<^item> \<open>Dispatch\<close>: the \<^verbatim>\<open>select\<close> of the server takes a connection from \<^verbatim>\<open>conns\<close> and
    starts a goroutine that will serve it.
  \<^item> \<open>ServerQuit\<close>: it takes \<^verbatim>\<open>q.stop\<close>: the socket is removed, \<^verbatim>\<open>q.sendStopped()\<close>,
    \<^verbatim>\<open>return\<close>.
  \<^item> \<open>Serve i\<close>: the goroutine numbered \<open>i\<close> among those waiting runs \<^verbatim>\<open>serveConn\<close>.
  \<^item> \<open>Acks\<close>: \<^verbatim>\<open>daemonMain\<close> receives both \<^verbatim>\<open>stopped\<close> values.
  \<^item> \<open>Shutdown sched\<close>: \<^verbatim>\<open>daemonMain\<close> takes the lock, dispatches the stop tasks, which
    run as the schedule \<open>sched\<close> says, waits for them and returns.
\<close>

datatype action =
  Signal | WatcherEvent event | WatcherQuit | Accept request | Dispatch | ServerQuit
  | Serve nat | Acks | Shutdown "nat list"

text \<open>
  One step, \<open>None\<close> where the action cannot happen in that state. \<^verbatim>\<open>serveConn\<close> runs
  in one step; a panic ends the process.
\<close>

fun step :: "env \<Rightarrow> action \<Rightarrow> sys \<Rightarrow> sys option" where
  "step env Signal s =
     (if exited s \<or> signalled s then None
      else Some (s\<lparr>signalled := True, watcher_stop := True, server_stop := True\<rparr>))"
| "step env (WatcherEvent ev) s =
     (if exited s \<or> \<not> watcher_loop s then None
      else Some (s\<lparr>dstate := handle_event env ev (dstate s),
                     late_event := late_event s \<or> watcher_stopped s\<rparr>))"
| "step env WatcherQuit s =
     (if exited s \<or> \<not> watcher_loop s \<or> \<not> watcher_stop s then None
      else Some (s\<lparr>watcher_stop := False, watcher_stopped := True, watcher_loop := False\<rparr>))"
| "step env (Accept r) s =
     (if exited s \<or> length (conns s) \<ge> 10 then None
      else Some (s\<lparr>conns := conns s @ [r]\<rparr>))"
| "step env Dispatch s =
     (if exited s \<or> \<not> server_loop s then None
      else case conns s of
             [] \<Rightarrow> None
           | r # rs \<Rightarrow>
               Some (s\<lparr>conns := rs, handlers := handlers s @ [r],
                        late_dispatch := late_dispatch s \<or> server_stopped s\<rparr>))"
| "step env ServerQuit s =
     (if exited s \<or> \<not> server_loop s \<or> \<not> server_stop s then None
      else Some (s\<lparr>server_stop := False, server_stopped := True, server_loop := False\<rparr>))"
| "step env (Serve i) s =
     (if exited s \<or> i \<ge> length (handlers s) then None
      else
        (let h = handlers s ! i;
             r = serveConn env (fst h) (fst (snd h)) (snd (snd h)) (dstate s)
         in Some (s\<lparr>dstate := snd (snd r),
                     handlers := take i (handlers s) @ drop (Suc i) (handlers s),
                     exited := (case fst r of Panic p \<Rightarrow> True | Return e \<Rightarrow> False),
                     late_serve := late_serve s \<or> server_stopped s\<rparr>)))"
| "step env Acks s =
     (if exited s \<or> acked s \<or> \<not> signalled s \<or> \<not> watcher_stopped s \<or> \<not> server_stopped s
      then None
      else Some (s\<lparr>acked := True\<rparr>))"
| "step env (Shutdown sched) s =
     (if exited s \<or> \<not> acked s then None
      else case shutdown env sched (dstate s) of
             None \<Rightarrow> None
           | Some d \<Rightarrow> Some (s\<lparr>dstate := d, exited := True\<rparr>))"

text \<open>A schedule: the actions in the order in which they happen.\<close>

fun run :: "env \<Rightarrow> action list \<Rightarrow> sys \<Rightarrow> sys option" where
  "run env [] s = Some s"
| "run env (a # as) s = (case step env a s of None \<Rightarrow> None | Some s1 \<Rightarrow> run env as s1)"

text \<open>
  Once a loop has sent \<^verbatim>\<open>stopped\<close> it has left its loop, nothing has been handled or
  dispatched after that, and both values have been sent when \<^verbatim>\<open>daemonMain\<close> has
  received them.
\<close>

definition quiet :: "sys \<Rightarrow> bool" where
  "quiet s =
     ((watcher_stopped s \<longrightarrow> \<not> watcher_loop s) \<and> (server_stopped s \<longrightarrow> \<not> server_loop s)
      \<and> (acked s \<longrightarrow> watcher_stopped s \<and> server_stopped s)
      \<and> \<not> late_event s \<and> \<not> late_dispatch s)"

text \<open>
  What is looked at after a run: whether \<^verbatim>\<open>daemonMain\<close> has received the two
  \<^verbatim>\<open>stopped\<close> values, whether \<^verbatim>\<open>serveConn\<close> has run after the one of the server was
  sent, whether the process has ended, and the state of the service at an address.
\<close>

definition view :: "sys \<Rightarrow> addr \<Rightarrow> bool \<times> bool \<times> bool \<times> state" where
  "view s a = (acked s, late_serve s, exited s, State (heap (dstate s) a))"

definition observe :: "sys option \<Rightarrow> addr \<Rightarrow> (bool \<times> bool \<times> bool \<times> state) option" where
  "observe r a = (case r of None \<Rightarrow> None | Some s \<Rightarrow> Some (view s a))"

section \<open>Properties of the registry\<close>

text \<open>Every pointer in the list has been allocated.\<close>

definition fresh :: "daemon \<Rightarrow> bool" where
  "fresh st = (\<forall>a \<in> set (list st). a < nxt st)"

text \<open>The list is in ascending order of the configured priorities.\<close>

definition by_priority :: "daemon \<Rightarrow> bool" where
  "by_priority st = sorted (map (prio st) (list st))"

text \<open>
  Services of equal priority stand in the order of their insertion: the one created
  first comes first.
\<close>

definition ties_by_insertion :: "daemon \<Rightarrow> bool" where
  "ties_by_insertion st =
     sorted_wrt (\<lambda>a b. prio st a = prio st b \<longrightarrow> a < b) (list st)"

text \<open>
  The event reaches the case \<^verbatim>\<open>ev.IsModify()\<close> of the switch, and the service it finds
  there.
\<close>

definition reaches_modify :: "env \<Rightarrow> event \<Rightarrow> bool" where
  "reaches_modify env ev =
     (\<not> shouldIgnoreFile env (base ev) \<and> \<not> IsCreate ev \<and> \<not> IsDelete ev
      \<and> \<not> IsRename ev \<and> IsModify ev)"

definition service_of_file :: "string \<Rightarrow> daemon \<Rightarrow> addr option" where
  "service_of_file name st = find (\<lambda>a. File (Config (heap st a)) = name) (list st)"

text \<open>
  The event does not change the priority of a registered service: it is not a
  modification, or it finds no service, or the configuration parsed has the priority of
  the current one.
\<close>

definition keeps_priority :: "env \<Rightarrow> event \<Rightarrow> daemon \<Rightarrow> bool" where
  "keeps_priority env ev st =
     (if reaches_modify env ev then
        (case service_of_file (base ev) st of
           None \<Rightarrow> True
         | Some a \<Rightarrow> Priority (parsed ev) = prio st a)
      else True)"

fun keep_priorities :: "env \<Rightarrow> event list \<Rightarrow> daemon \<Rightarrow> bool" where
  "keep_priorities env [] st = True"
| "keep_priorities env (ev # evs) st =
     (keeps_priority env ev st \<and> keep_priorities env evs (handle_event env ev st))"

section \<open>Properties of the responses\<close>

text \<open>The state of every registered service is one of the five named states.\<close>

definition all_valid :: "daemon \<Rightarrow> bool" where
  "all_valid st = list_all (\<lambda>v. valid_state (State (heap st v))) (list st)"

text \<open>
  The status line as the specification words it: \<^verbatim>\<open>STOPPED\<close>, \<^verbatim>\<open>STOPPING\<close>, \<^verbatim>\<open>STARTING\<close>,
  \<^verbatim>\<open>RUNNING since <time>\<close> followed by \<^verbatim>\<open> - N restarts\<close> if the restarts are more than
  zero, or \<^verbatim>\<open>FAILED - <error>\<close>.
\<close>

fun status_line :: "env \<Rightarrow> service \<Rightarrow> string" where
  "status_line env s =
     (case State s of
        StateStopped \<Rightarrow> ''STOPPED''
      | StateStopping \<Rightarrow> ''STOPPING''
      | StateStarting \<Rightarrow> ''STARTING''
      | StateStarted \<Rightarrow>
          ''RUNNING since '' @ formatTime env (Started s)
          @ (if Restarts s > 0 then '' - '' @ showInt (Restarts s) @ '' restarts'' else [])
      | StateFailed \<Rightarrow> ''FAILED - '' @ Err s
      | StateInvalid n \<Rightarrow> [])"

text \<open>The table of the \<^verbatim>\<open>list\<close> command: the header, then one row for each service.\<close>

definition table :: "env \<Rightarrow> daemon \<Rightarrow> string" where
  "table env st =
     ''SERVICE'' @ TAB @ ''STATUS'' @ TAB @ NL
     @ concat (map (\<lambda>v. Name (heap st v) @ TAB @ status_line env (heap st v) @ TAB @ NL)
                (list st))"

text \<open>
  The request installs a log subscription: the command is \<^verbatim>\<open>log\<close> with one argument,
  which names a registered service that is started and has no subscriber.
\<close>

definition installs_log :: "env \<Rightarrow> string list \<Rightarrow> daemon \<Rightarrow> bool" where
  "installs_log env args st =
     (length args = 2 \<and> ToLower env (args ! 0) = ''log''
      \<and> (case lookup (args ! 1) st of
             None \<Rightarrow> False
           | Some v \<Rightarrow> State (heap st v) = StateStarted \<and> \<not> monitor (heap st v)))"

text \<open>The commands of the switch, the empty string among them.\<close>

definition known_cmd :: "string \<Rightarrow> bool" where
  "known_cmd cmd =
     (cmd = [] \<or> cmd = ''start'' \<or> cmd = ''stop'' \<or> cmd = ''restart'' \<or> cmd = ''list''
      \<or> cmd = ''log'')"

text \<open>
  The messages of a response that ends as it should: the last one is the end marker,
  and no message before it carries that tag.
\<close>

definition one_End_last :: "msg list \<Rightarrow> bool" where
  "one_End_last ms =
     (ms \<noteq> [] \<and> last ms = (respEnd, []) \<and> list_all (\<lambda>m. fst m \<noteq> respEnd) (butlast ms))"

definition no_End :: "msg list \<Rightarrow> bool" where
  "no_End ms = list_all (\<lambda>m. fst m \<noteq> respEnd) ms"

text \<open>The calls of \<^verbatim>\<open>Start()\<close> and \<^verbatim>\<open>Stop()\<close> that a step adds to the trace.\<close>

definition new_calls :: "daemon \<Rightarrow> daemon \<Rightarrow> call list" where
  "new_calls st st1 = drop (length (trace st)) (trace st1)"

definition new_msgs :: "conn \<Rightarrow> conn \<Rightarrow> msg list" where
  "new_msgs c c1 = drop (length (sent c)) (sent c1)"

text \<open>
  The services in the order in which \<^verbatim>\<open>Stop()\<close> is called on them during a shutdown
  that returns under that schedule; \<open>None\<close> where it does not return.
\<close>

definition stopped_by :: "env \<Rightarrow> nat list \<Rightarrow> daemon \<Rightarrow> addr list option" where
  "stopped_by env sched st =
     (case shutdown env sched st of
        None \<Rightarrow> None
      | Some st1 \<Rightarrow> Some (stops (new_calls st st1)))"

text \<open>
  A schedule that runs every one of \<open>n\<close> pending tasks: each step names a task that is
  still pending.
\<close>

fun runs_all :: "nat list \<Rightarrow> nat \<Rightarrow> bool" where
  "runs_all [] n = (n = 0)"
| "runs_all (i # sched) n = (i < n \<and> runs_all sched (n - 1))"


text \<open>
  The response that a request adds to the connection ends as it should: messages
  without the end tag, then the end marker.
\<close>

definition ends :: "conn \<Rightarrow> result \<times> conn \<times> daemon \<Rightarrow> bool" where
  "ends c r =
     (sent (fst (snd r)) = sent c @ new_msgs c (fst (snd r))
      \<and> one_End_last (new_msgs c (fst (snd r))))"

text \<open>The commands that take the name of a service.\<close>

definition named_cmd :: "string \<Rightarrow> bool" where
  "named_cmd cmd = (cmd = ''start'' \<or> cmd = ''stop'' \<or> cmd = ''restart'' \<or> cmd = ''log'')"

section \<open>Concrete inputs\<close>

text \<open>
  An environment in which every process starts and stops: \<^verbatim>\<open>Start\<close> succeeds from
  \<^verbatim>\<open>Stopped\<close> and \<^verbatim>\<open>Failed\<close>, \<^verbatim>\<open>Stop\<close> from \<^verbatim>\<open>Started\<close>, as the state machine of
  the specification has it. No file is ignored, and the commands arrive in lower case.
\<close>

definition env0 :: env where
  "env0 =
     \<lparr>Start_impl = (\<lambda>k s.
        if State s = StateStopped \<or> State s = StateFailed
        then (None, s\<lparr>State := StateStarted, Started := k\<rparr>)
        else (Some ''already running'', s)),
      Stop_impl = (\<lambda>k s.
        if State s = StateStarted then (None, s\<lparr>State := StateStopped\<rparr>)
        else (Some ''not running'', s)),
      shouldIgnoreFile = (\<lambda>n. False),
      ToLower = (\<lambda>s. s),
      formatTime = showNat,
      tabwriter = (\<lambda>w. w),
      help_text = ''help'',
      newLine = NL\<rparr>"

text \<open>The same environment, but no process stops: \<^verbatim>\<open>Stop\<close> fails with \<^verbatim>\<open>boom\<close>.\<close>

definition env1 :: env where
  "env1 = env0\<lparr>Stop_impl := (\<lambda>k s. (Some ''boom'', s\<lparr>State := StateFailed, Err := ''boom''\<rparr>))\<rparr>"

definition mk_config :: "string \<Rightarrow> int \<Rightarrow> config" where
  "mk_config n p = \<lparr>File = n, Priority = p, ServiceName = n, Launch = []\<rparr>"

definition ev_create :: "config \<Rightarrow> event" where
  "ev_create c =
     \<lparr>base = File c, IsCreate = True, IsDelete = False, IsRename = False, IsModify = False,
      parsed = c, printed = ''CREATE''\<rparr>"

definition ev_delete :: "config \<Rightarrow> event" where
  "ev_delete c =
     \<lparr>base = File c, IsCreate = False, IsDelete = True, IsRename = False, IsModify = False,
      parsed = c, printed = ''DELETE''\<rparr>"

definition ev_modify :: "config \<Rightarrow> event" where
  "ev_modify c =
     \<lparr>base = File c, IsCreate = False, IsDelete = False, IsRename = False, IsModify = True,
      parsed = c, printed = ''MODIFY''\<rparr>"

text \<open>The daemon after a boot without configurations and the creation of \<open>x\<close>.\<close>

definition one_started :: daemon where
  "one_started = handle_events env0 [ev_create (mk_config ''x'' 2)] (boot env0 [])"

text \<open>
  Three services: \<open>a\<close> started at time 7 with two restarts, \<open>b\<close> stopped, and \<open>c\<close>
  failed with the error \<^verbatim>\<open>boom\<close>.
\<close>

definition three :: daemon where
  "three =
     \<lparr>list = [0, 1, 2],
      heap = (\<lambda>a.
        if a = 0 then (newService (mk_config ''a'' 1))
                        \<lparr>State := StateStarted, Started := 7, Restarts := 2\<rparr>
        else if a = 1 then newService (mk_config ''b'' 1)
        else (newService (mk_config ''c'' 2))\<lparr>State := StateFailed, Err := ''boom''\<rparr>),
      nxt = 3, trace = [], logs = []\<rparr>"

text \<open>
  The three services again, but \<open>b\<close> in a state that is none of the five named ones.
\<close>

definition broken :: daemon where
  "broken = three\<lparr>heap := (heap three)(1 := (heap three 1)\<lparr>State := StateInvalid 7\<rparr>)\<rparr>"

text \<open>
  The scenario of the specification: after a boot without configurations, \<open>C\<close> of
  priority 1, \<open>A\<close> of priority 1 and \<open>B\<close> of priority 2 are created in this order.
\<close>

definition scenario :: daemon where
  "scenario =
     handle_events env0
       [ev_create (mk_config ''C'' 1), ev_create (mk_config ''A'' 1), ev_create (mk_config ''B'' 2)]
       (boot env0 [])"

text \<open>
  Created in the order \<open>c\<close> of priority 2, \<open>a\<close> of priority 1, \<open>b\<close> of priority 1.
\<close>

definition late_low :: daemon where
  "late_low =
     handle_events env0
       [ev_create (mk_config ''c'' 2), ev_create (mk_config ''a'' 1), ev_create (mk_config ''b'' 1)]
       (boot env0 [])"

text \<open>A connection on which every write succeeds, and one on which every write fails.\<close>

definition conn0 :: conn where
  "conn0 = \<lparr>werr = (\<lambda>k. None), sent = []\<rparr>"

definition conn1 :: conn where
  "conn1 = \<lparr>werr = (\<lambda>k. Some ''broken pipe''), sent = []\<rparr>"

section \<open>The registry is sorted\<close>

subsection \<open>The stable sort\<close>

lemma insertStable_insort_key:
  "insertStable (\<lambda>a b. f a < f b) x ys = insort_key f x ys" for f :: "'a \<Rightarrow> 'k::linorder"
  by (induction ys) (auto simp: not_less)

lemma sortStable_sort_key:
  "sortStable (\<lambda>a b. f a < f b) xs = sort_key f xs" for f :: "'a \<Rightarrow> 'k::linorder"
  by (induction xs) (auto simp: insertStable_insort_key)

lemma list_Sort: "list (Sort st) = sort_key (prio st) (list st)"
proof -
  have "Less st = (\<lambda>a b. prio st a < prio st b)"
    by (simp add: fun_eq_iff Less_def)
  then show ?thesis
    by (simp add: Sort_def sortStable_sort_key)
qed

lemma heap_Sort [simp]: "heap (Sort st) = heap st" and nxt_Sort [simp]: "nxt (Sort st) = nxt st"
  and prio_Sort [simp]: "prio (Sort st) = prio st"
  by (simp_all add: Sort_def prio_def fun_eq_iff)

lemma prio_Start [simp]: "prio (snd (Start env a st)) = prio st"
  by (simp add: Start_def prio_def fun_eq_iff Let_def)

lemma prio_Stop [simp]: "prio (snd (Stop env a st)) = prio st"
  by (simp add: Stop_def prio_def fun_eq_iff Let_def)

lemma list_Start [simp]: "list (snd (Start env a st)) = list st"
  and nxt_Start [simp]: "nxt (snd (Start env a st)) = nxt st"
  and list_Stop [simp]: "list (snd (Stop env a st)) = list st"
  and nxt_Stop [simp]: "nxt (snd (Stop env a st)) = nxt st"
  by (simp_all add: Start_def Stop_def Let_def)

lemma prio_Debugf [simp]: "prio (Debugf l st) = prio st"
  and list_Debugf [simp]: "list (Debugf l st) = list st"
  and nxt_Debugf [simp]: "nxt (Debugf l st) = nxt st"
  and heap_Debugf [simp]: "heap (Debugf l st) = heap st"
  by (simp_all add: Debugf_def prio_def fun_eq_iff)

subsection \<open>What the sort and the calls preserve\<close>

lemma ties_filter:
  "sorted_wrt (\<lambda>a b. f a = f b \<longrightarrow> a < b) xs = (\<forall>k. sorted_wrt (<) (filter (\<lambda>a. f a = k) xs))"
  for f :: "nat \<Rightarrow> int"
proof (induction xs)
  case Nil
  then show ?case by simp
next
  case (Cons x xs)
  show ?case
  proof
    assume l: "sorted_wrt (\<lambda>a b. f a = f b \<longrightarrow> a < b) (x # xs)"
    then show "\<forall>k. sorted_wrt (<) (filter (\<lambda>a. f a = k) (x # xs))"
      using Cons.IH by auto
  next
    assume r: "\<forall>k. sorted_wrt (<) (filter (\<lambda>a. f a = k) (x # xs))"
    have "sorted_wrt (<) (filter (\<lambda>a. f a = k) xs)" for k
      using r [rule_format, of k] by (auto split: if_splits)
    moreover have "\<forall>y \<in> set xs. f x = f y \<longrightarrow> x < y"
      using r [rule_format, of "f x"] by auto
    ultimately show "sorted_wrt (\<lambda>a b. f a = f b \<longrightarrow> a < b) (x # xs)"
      using Cons.IH by simp
  qed
qed

lemma ties_sort_key:
  "sorted_wrt (\<lambda>a b. f a = f b \<longrightarrow> a < b) (sort_key f xs) =
   sorted_wrt (\<lambda>a b. f a = f b \<longrightarrow> a < b) xs" for f :: "nat \<Rightarrow> int"
  by (simp only: ties_filter sort_key_stable)

lemma Sort_by_priority: "by_priority (Sort st)"
  by (simp add: by_priority_def list_Sort)

lemma Sort_ties: "ties_by_insertion (Sort st) = ties_by_insertion st"
  by (simp add: ties_by_insertion_def list_Sort ties_sort_key)

lemma Sort_fresh: "fresh (Sort st) = fresh st"
  by (simp add: fresh_def list_Sort)

lemma Start_inv:
  "by_priority (snd (Start env a st)) = by_priority st"
  "ties_by_insertion (snd (Start env a st)) = ties_by_insertion st"
  "fresh (snd (Start env a st)) = fresh st"
  by (simp_all add: by_priority_def ties_by_insertion_def fresh_def)

lemma Stop_inv:
  "by_priority (snd (Stop env a st)) = by_priority st"
  "ties_by_insertion (snd (Stop env a st)) = ties_by_insertion st"
  "fresh (snd (Stop env a st)) = fresh st"
  by (simp_all add: by_priority_def ties_by_insertion_def fresh_def)

subsection \<open>The boot loop\<close>

lemma boot_loop_Cons:
  "boot_loop env (c # cs) st = boot_loop env cs (snd (Start env (nxt st) (alloc c st)))"
  by simp

lemma alloc_simps [simp]:
  "list (alloc c st) = list st @ [nxt st]"
  "nxt (alloc c st) = Suc (nxt st)"
  "trace (alloc c st) = trace st"
  "prio (alloc c st) = (prio st)(nxt st := Priority c)"
  by (simp_all add: alloc_def prio_def fun_eq_iff newService_def)

lemma trace_Start [simp]: "trace (snd (Start env a st)) = trace st @ [CallStart a]"
  by (simp add: Start_def Let_def)

lemma trace_Stop [simp]: "trace (snd (Stop env a st)) = trace st @ [CallStop a]"
  by (simp add: Stop_def Let_def)

lemma boot_loop_shape:
  "list (boot_loop env cs st) = list st @ [nxt st ..< nxt st + length cs]
   \<and> nxt (boot_loop env cs st) = nxt st + length cs
   \<and> trace (boot_loop env cs st) = trace st @ map CallStart [nxt st ..< nxt st + length cs]"
proof (induction cs arbitrary: st)
  case Nil
  then show ?case by simp
next
  case (Cons c cs)
  let ?st2 = "snd (Start env (nxt st) (alloc c st))"
  have u: "[nxt st ..< nxt st + length (c # cs)] = nxt st # [nxt ?st2 ..< nxt ?st2 + length cs]"
    by (simp add: upt_conv_Cons del: upt_Suc)
  show ?case
    unfolding u boot_loop_Cons using Cons.IH [of ?st2] by simp
qed

lemma boot_loop_prio_old:
  "a < nxt st \<Longrightarrow> prio (boot_loop env cs st) a = prio st a"
proof (induction cs arbitrary: st)
  case Nil
  then show ?case by simp
next
  case (Cons c cs)
  let ?st2 = "snd (Start env (nxt st) (alloc c st))"
  show ?case
    unfolding boot_loop_Cons using Cons.IH [of ?st2] Cons.prems by simp
qed

lemma boot_loop_prio:
  "i < length cs \<Longrightarrow> prio (boot_loop env cs st) (nxt st + i) = Priority (cs ! i)"
proof (induction cs arbitrary: st i)
  case Nil
  then show ?case by simp
next
  case (Cons c cs)
  let ?st2 = "snd (Start env (nxt st) (alloc c st))"
  show ?case
  proof (cases i)
    case 0
    then show ?thesis
      unfolding boot_loop_Cons using boot_loop_prio_old [of "nxt st" ?st2 env cs] by simp
  next
    case (Suc j)
    then show ?thesis
      unfolding boot_loop_Cons using Cons.IH [of j ?st2] Cons.prems by simp
  qed
qed

subsection \<open>The event handlers\<close>

lemma alloc_inv:
  assumes "fresh st"
  shows "fresh (alloc c st)"
    and "ties_by_insertion st \<Longrightarrow> ties_by_insertion (alloc c st)"
proof -
  show "fresh (alloc c st)"
    using assms by (auto simp: fresh_def)
  assume t: "ties_by_insertion st"
  have n: "nxt st \<notin> set (list st)"
    using assms by (auto simp: fresh_def)
  have "sorted_wrt (\<lambda>a b. ((prio st)(nxt st := Priority c)) a = ((prio st)(nxt st := Priority c)) b \<longrightarrow> a < b) (list st)"
    using t n unfolding ties_by_insertion_def
    by (elim sorted_wrt_mono_rel [rotated]) auto
  then show "ties_by_insertion (alloc c st)"
    using assms by (auto simp: ties_by_insertion_def sorted_wrt_append fresh_def)
qed

lemma Errorf_Debugf: "Errorf = Debugf"
  by (simp add: fun_eq_iff Errorf_def Debugf_def)

lemma Debugf_inv [simp]:
  "fresh (Debugf l st) = fresh st"
  "by_priority (Debugf l st) = by_priority st"
  "ties_by_insertion (Debugf l st) = ties_by_insertion st"
  by (simp_all add: fresh_def by_priority_def ties_by_insertion_def)

lemma on_create_inv:
  "by_priority (on_create env c st)"
  "fresh st \<Longrightarrow> fresh (on_create env c st)"
  "fresh st \<Longrightarrow> ties_by_insertion st \<Longrightarrow> ties_by_insertion (on_create env c st)"
  by (simp_all add: on_create_def Let_def Start_inv Sort_by_priority Sort_fresh Sort_ties alloc_inv)

lemma prio_list_upd [simp]: "prio (st\<lparr>list := l\<rparr>) = prio st"
  by (simp add: prio_def fun_eq_iff)

lemma delete_loop_shape:
  "prio (delete_loop env name pre xs st) = prio st
   \<and> nxt (delete_loop env name pre xs st) = nxt st
   \<and> (list (delete_loop env name pre xs st) = list st
        \<or> (\<exists>p a r. pre @ xs = p @ a # r \<and> list (delete_loop env name pre xs st) = p @ r))"
proof (induction xs arbitrary: pre)
  case Nil
  then show ?case by simp
next
  case (Cons x xs)
  show ?case
  proof (cases "File (Config (heap st x)) = name")
    case True
    then show ?thesis by (auto simp: Let_def)
  next
    case False
    then show ?thesis using Cons.IH [of "pre @ [x]"] by simp
  qed
qed

lemma on_delete_inv:
  "by_priority st \<Longrightarrow> by_priority (on_delete env name st)"
  "fresh st \<Longrightarrow> fresh (on_delete env name st)"
  "ties_by_insertion st \<Longrightarrow> ties_by_insertion (on_delete env name st)"
  using delete_loop_shape [of env name "[]" "list st" st]
  unfolding on_delete_def by_priority_def fresh_def ties_by_insertion_def
  by (auto simp: sorted_append sorted_wrt_append)

lemma modify_loop_find:
  "modify_loop env name cfg xs st =
     (case find (\<lambda>a. File (Config (heap st a)) = name) xs of
        None \<Rightarrow> st
      | Some a \<Rightarrow> modify_loop env name cfg [a] st)"
  by (induction xs) auto

lemma reconfigure_simps [simp]:
  "list (reconfigure a cfg st) = list st"
  "nxt (reconfigure a cfg st) = nxt st"
  "prio (reconfigure a cfg st) = (prio st)(a := Priority cfg)"
  by (simp_all add: reconfigure_def prio_def fun_eq_iff)

lemma modify_one_inv:
  "by_priority st \<Longrightarrow> by_priority (modify_loop env name cfg [a] st)"
  "fresh st \<Longrightarrow> fresh (modify_loop env name cfg [a] st)"
  "ties_by_insertion st \<Longrightarrow> Priority cfg = prio st a
     \<Longrightarrow> ties_by_insertion (modify_loop env name cfg [a] st)"
  by (simp_all add: Let_def Start_inv Stop_inv Sort_by_priority Sort_fresh Sort_ties
      )
     (simp_all add: fresh_def ties_by_insertion_def)

lemma on_modify_inv:
  "by_priority st \<Longrightarrow> by_priority (on_modify env name cfg st)"
  "fresh st \<Longrightarrow> fresh (on_modify env name cfg st)"
  "ties_by_insertion st \<Longrightarrow>
     (case service_of_file name st of None \<Rightarrow> True | Some a \<Rightarrow> Priority cfg = prio st a)
     \<Longrightarrow> ties_by_insertion (on_modify env name cfg st)"
  unfolding on_modify_def service_of_file_def modify_loop_find [of env name cfg "list st"]
  by (simp_all add: modify_one_inv split: option.splits del: modify_loop.simps)

lemma handle_event_inv:
  "by_priority st \<Longrightarrow> by_priority (handle_event env ev st)"
  "fresh st \<Longrightarrow> fresh (handle_event env ev st)"
  by (simp_all add: handle_event_def Let_def Errorf_Debugf on_create_inv on_delete_inv
      on_modify_inv)

lemma handle_event_ties:
  "fresh st \<Longrightarrow> ties_by_insertion st \<Longrightarrow> keeps_priority env ev st
     \<Longrightarrow> ties_by_insertion (handle_event env ev st)"
  by (simp add: handle_event_def Let_def Errorf_Debugf on_create_inv on_delete_inv on_modify_inv
      keeps_priority_def reaches_modify_def)

lemma handle_events_inv:
  "by_priority st \<Longrightarrow> by_priority (handle_events env evs st)"
  "fresh st \<Longrightarrow> fresh (handle_events env evs st)"
  by (induction evs arbitrary: st) (simp_all add: handle_event_inv)

lemma handle_events_ties:
  "fresh st \<Longrightarrow> ties_by_insertion st \<Longrightarrow> keep_priorities env evs st
     \<Longrightarrow> ties_by_insertion (handle_events env evs st)"
  by (induction evs arbitrary: st) (simp_all add: handle_event_inv handle_event_ties)

lemma boot_inv:
  "by_priority (boot env cs)" "fresh (boot env cs)" "ties_by_insertion (boot env cs)"
proof -
  let ?st = "boot_loop env cs init"
  have l: "list ?st = [0 ..< length cs]" and n: "nxt ?st = length cs"
    using boot_loop_shape [of env cs init] by (simp_all add: init_def)
  show "by_priority (boot env cs)"
    by (simp add: boot_def Sort_by_priority)
  show "fresh (boot env cs)"
    by (simp add: boot_def Sort_fresh) (simp add: fresh_def l n)
  have "sorted_wrt (<) (list ?st)"
    by (simp add: l)
  then have "ties_by_insertion ?st"
    unfolding ties_by_insertion_def by (rule sorted_wrt_mono_rel [rotated]) simp
  then show "ties_by_insertion (boot env cs)"
    by (simp add: boot_def Sort_ties)
qed


subsection \<open>The order of the registry\<close>

text \<open>
  C3, as amended. After the boot and after every event of the watcher, that is at every
  release of the lock, the list is in ascending order of the configured priorities,
  whatever the configurations and the events are. Services of equal priority stand in
  the order of their insertion as long as no modification has given a service another
  priority: a service whose priority a modification changes keeps the place that the
  stable sort gives it, which need not be its rank of insertion.
\<close>

theorem registry_order:
  "by_priority (handle_events env evs (boot env configs))
   \<and> (keep_priorities env evs (boot env configs)
        \<longrightarrow> ties_by_insertion (handle_events env evs (boot env configs)))"
  by (simp add: handle_events_inv handle_events_ties boot_inv)

theorem registry_order_witness:
  "keep_priorities env0
     [ev_create (mk_config ''x'' 2), ev_create (mk_config ''y'' 1),
      ev_modify ((mk_config ''y'' 1)\<lparr>Launch := ''run''\<rparr>), ev_delete (mk_config ''x'' 2)]
     (boot env0 [mk_config ''z'' 1])
   \<and> by_priority (handle_events env0
     [ev_create (mk_config ''x'' 2), ev_create (mk_config ''y'' 1),
      ev_modify ((mk_config ''y'' 1)\<lparr>Launch := ''run''\<rparr>), ev_delete (mk_config ''x'' 2)]
     (boot env0 [mk_config ''z'' 1]))
   \<and> ties_by_insertion (handle_events env0
     [ev_create (mk_config ''x'' 2), ev_create (mk_config ''y'' 1),
      ev_modify ((mk_config ''y'' 1)\<lparr>Launch := ''run''\<rparr>), ev_delete (mk_config ''x'' 2)]
     (boot env0 [mk_config ''z'' 1]))"
proof -
  have k: "keep_priorities env0
     [ev_create (mk_config ''x'' 2), ev_create (mk_config ''y'' 1),
      ev_modify ((mk_config ''y'' 1)\<lparr>Launch := ''run''\<rparr>), ev_delete (mk_config ''x'' 2)]
     (boot env0 [mk_config ''z'' 1])"
    by code_simp
  show ?thesis
    using k registry_order [of env0
      "[ev_create (mk_config ''x'' 2), ev_create (mk_config ''y'' 1),
        ev_modify ((mk_config ''y'' 1)\<lparr>Launch := ''run''\<rparr>), ev_delete (mk_config ''x'' 2)]"
      "[mk_config ''z'' 1]"]
    by blast
qed

text \<open>
  C3 as it is written fails. The service \<open>x\<close> is created with priority 2, then \<open>y\<close>
  with priority 1, which the sort puts first; a modification then gives \<open>y\<close> the
  priority 2. The sort is stable, so \<open>y\<close> stays in front of \<open>x\<close>: two services of equal
  priority, the one inserted last standing first.
\<close>

theorem registry_ties_counterexample:
  "list (handle_events env0
     [ev_create (mk_config ''x'' 2), ev_create (mk_config ''y'' 1), ev_modify (mk_config ''y'' 2)]
     (boot env0 [])) = [1, 0]
   \<and> map (prio (handle_events env0
     [ev_create (mk_config ''x'' 2), ev_create (mk_config ''y'' 1), ev_modify (mk_config ''y'' 2)]
     (boot env0 []))) [1, 0] = [2, 2]
   \<and> \<not> ties_by_insertion (handle_events env0
     [ev_create (mk_config ''x'' 2), ev_create (mk_config ''y'' 1), ev_modify (mk_config ''y'' 2)]
     (boot env0 []))"
  by code_simp

section \<open>The order of the starts at boot\<close>

lemma starts_append: "starts (xs @ ys) = starts xs @ starts ys"
  by (induction xs rule: starts.induct) simp_all

lemma stops_append: "stops (xs @ ys) = stops xs @ stops ys"
  by (induction xs rule: stops.induct) simp_all

lemma starts_map [simp]: "starts (map CallStart as) = as" "starts (map CallStop as) = []"
  by (induction as) simp_all

lemma stops_map [simp]: "stops (map CallStop as) = as" "stops (map CallStart as) = []"
  by (induction as) simp_all

lemma trace_Sort [simp]: "trace (Sort st) = trace st @ [CallSort]"
  by (simp add: Sort_def)

lemma boot_trace: "trace (boot env cs) = map CallStart [0 ..< length cs] @ [CallSort]"
  using boot_loop_shape [of env cs init] by (simp add: boot_def init_def)

lemma boot_start_order:
  "starts (trace (boot env cs)) = [0 ..< length cs]"
  "map (prio (boot env cs)) (starts (trace (boot env cs))) = map Priority cs"
proof -
  show s: "starts (trace (boot env cs)) = [0 ..< length cs]"
    by (simp add: boot_trace starts_append)
  have "prio (boot env cs) i = Priority (cs ! i)" if "i < length cs" for i
    using boot_loop_prio [of i cs env init] that by (simp add: boot_def init_def)
  then show "map (prio (boot env cs)) (starts (trace (boot env cs))) = map Priority cs"
    unfolding s by (intro nth_equalityI) simp_all
qed

text \<open>
  C1. The loop of \<^verbatim>\<open>daemonMain\<close> starts each service as it creates it, in the order of
  the configurations, and the list is sorted only after the loop (\<open>boot_start_order\<close>
  above, for every list of configurations). With a configuration of priority 2 before
  one of priority 1, the service of priority 2 is started first: the starts are not in
  ascending order of priority, and the sort comes after both.
\<close>

theorem boot_starts_before_sort:
  "trace (boot env0 [mk_config ''b'' 2, mk_config ''a'' 1]) = [CallStart 0, CallStart 1, CallSort]
   \<and> map (prio (boot env0 [mk_config ''b'' 2, mk_config ''a'' 1]))
        (starts (trace (boot env0 [mk_config ''b'' 2, mk_config ''a'' 1]))) = [2, 1]
   \<and> \<not> sorted (map (prio (boot env0 [mk_config ''b'' 2, mk_config ''a'' 1]))
        (starts (trace (boot env0 [mk_config ''b'' 2, mk_config ''a'' 1]))))"
  by code_simp

section \<open>The order of the stops at shutdown\<close>

subsection \<open>The pointers in the registry are distinct\<close>

lemma alloc_distinct: "fresh st \<Longrightarrow> distinct (list st) \<Longrightarrow> distinct (list (alloc c st))"
  by (simp add: fresh_def) auto

lemma on_create_distinct:
  "fresh st \<Longrightarrow> distinct (list st) \<Longrightarrow> distinct (list (on_create env c st))"
  by (auto simp: on_create_def Let_def list_Sort fresh_def)

lemma on_delete_distinct: "distinct (list st) \<Longrightarrow> distinct (list (on_delete env name st))"
  using delete_loop_shape [of env name "[]" "list st" st]
  unfolding on_delete_def by auto

lemma on_modify_distinct: "distinct (list st) \<Longrightarrow> distinct (list (on_modify env name c st))"
  unfolding on_modify_def modify_loop_find [of env name c "list st"]
  by (simp add: Let_def list_Sort split: option.splits)

lemma handle_event_distinct:
  "fresh st \<Longrightarrow> distinct (list st) \<Longrightarrow> distinct (list (handle_event env ev st))"
  by (simp add: handle_event_def Let_def Errorf_Debugf on_create_distinct on_delete_distinct
      on_modify_distinct)

lemma handle_events_distinct:
  "fresh st \<Longrightarrow> distinct (list st) \<Longrightarrow> distinct (list (handle_events env evs st))"
  by (induction evs arbitrary: st) (simp_all add: handle_event_inv handle_event_distinct)

lemma boot_distinct: "distinct (list (boot env cs))"
  using boot_loop_shape [of env cs init] by (simp add: boot_def list_Sort init_def)

subsection \<open>The dispatch loop and the stop tasks\<close>

lemma dispatch_loop_rev:
  "n \<le> length (list st) \<Longrightarrow> dispatch_loop st n = rev (take n (list st))"
  by (induction n) (simp_all add: take_Suc_conv_app_nth)

lemma dispatched_rev: "dispatched st = rev (list st)"
  by (simp add: dispatched_def dispatch_loop_rev)

lemma trace_Debugf [simp]: "trace (Debugf l st) = trace st"
  by (simp add: Debugf_def)

lemma mset_without:
  "i < length todo \<Longrightarrow> mset (take i todo @ drop (Suc i) todo) + {#todo ! i#} = mset todo"
proof -
  assume "i < length todo"
  then have "todo = take i todo @ todo ! i # drop (Suc i) todo"
    by (rule id_take_nth_drop)
  then have "mset todo = mset (take i todo @ todo ! i # drop (Suc i) todo)"
    by simp
  then show ?thesis
    by simp
qed

text \<open>
  Whatever the schedule: the counter of the wait group is the number of the pending
  tasks, and the calls made are \<^verbatim>\<open>Stop()\<close> calls, one for each task that has run.
\<close>

lemma stop_tasks_shape:
  "stop_tasks env sched todo wg st = Some r \<Longrightarrow> wg = int (length todo) \<Longrightarrow>
   fst (snd r) = int (length (fst r))
   \<and> list (snd (snd r)) = list st
   \<and> prio (snd (snd r)) = prio st
   \<and> (\<exists>called. trace (snd (snd r)) = trace st @ map CallStop called
             \<and> mset called + mset (fst r) = mset todo)"
proof (induction sched arbitrary: todo wg st)
  case Nil
  then show ?case
    by (auto intro: exI [of _ "[]"])
next
  case (Cons i sched)
  let ?todo = "take i todo @ drop (Suc i) todo"
  let ?st = "snd (Stop env (todo ! i) st)"
  from Cons.prems have i: "i < length todo"
    and r: "stop_tasks env sched ?todo (wg - 1) ?st = Some r"
    by (auto split: if_splits)
  have w: "wg - 1 = int (length ?todo)"
    using i Cons.prems(2) by auto
  from Cons.IH [OF r w] obtain called where called:
    "fst (snd r) = int (length (fst r))" "list (snd (snd r)) = list st"
    "prio (snd (snd r)) = prio st"
    "trace (snd (snd r)) = trace ?st @ map CallStop called"
    "mset called + mset (fst r) = mset ?todo"
    by auto
  have "trace (snd (snd r)) = trace st @ map CallStop (todo ! i # called)"
    using called(4) by simp
  moreover have "mset (todo ! i # called) + mset (fst r) = mset todo"
    using called(5) mset_without [OF i] by (simp add: ac_simps)
  ultimately show ?case
    using called(1,2,3) by blast
qed

text \<open>A schedule that runs every pending task brings the counter to zero.\<close>

lemma stop_tasks_runs_all:
  "runs_all sched (length todo) \<Longrightarrow> wg = int (length todo) \<Longrightarrow>
   \<exists>st1. stop_tasks env sched todo wg st = Some ([], 0, st1)"
proof (induction sched arbitrary: todo wg st)
  case Nil
  then show ?case by simp
next
  case (Cons i sched)
  let ?todo = "take i todo @ drop (Suc i) todo"
  from Cons.prems have i: "i < length todo" and n: "runs_all sched (length todo - 1)"
    by simp_all
  have l: "length ?todo = length todo - 1"
    using i by auto
  have w: "wg - 1 = int (length ?todo)" "0 < wg"
    using i Cons.prems(2) by auto
  from Cons.IH [of ?todo "wg - 1" "snd (Stop env (todo ! i) st)"] n l w
  show ?case
    using i by simp
qed

lemma stops_new_calls:
  "trace st1 = trace st @ map CallStop called \<Longrightarrow>
   stops (new_calls st st1) = called \<and> starts (new_calls st st1) = []"
  by (simp add: new_calls_def)

lemma shutdown_returns:
  assumes "shutdown env sched st = Some st1"
  shows "list st1 = list st \<and> prio st1 = prio st
     \<and> mset (stops (new_calls st st1)) = mset (dispatched st)
     \<and> starts (new_calls st st1) = []"
proof -
  from assms obtain r where r:
    "stop_tasks env sched (dispatched st) (int (length (list st))) st = Some r"
    "fst (snd r) = 0" "st1 = Debugf ''daemon exiting'' (snd (snd r))"
    by (auto simp: shutdown_def split: option.splits if_splits)
  have "int (length (list st)) = int (length (dispatched st))"
    by (simp add: dispatched_rev)
  from stop_tasks_shape [OF r(1) this] r(2) obtain called where called:
    "fst r = []" "list (snd (snd r)) = list st" "prio (snd (snd r)) = prio st"
    "trace (snd (snd r)) = trace st @ map CallStop called"
    "mset called + mset (fst r) = mset (dispatched st)"
    by auto
  have "trace st1 = trace st @ map CallStop called"
    using r(3) called(4) by simp
  from stops_new_calls [OF this] called r(3) show ?thesis
    by simp
qed

lemma shutdown_runs_all:
  "runs_all sched (length (list st)) \<Longrightarrow> shutdown env sched st \<noteq> None"
  using stop_tasks_runs_all [of sched "dispatched st" "int (length (list st))" env st]
  by (auto simp: shutdown_def dispatched_rev)

text \<open>
  C2, as amended. Whatever the configurations at boot and the events of the watcher
  since: the stop tasks are dispatched from the last service of the registry to the
  first, one task for each registered service, so that the priorities never increase
  along the sequence of the dispatches (services of equal priority follow each other,
  in the reverse of their order in the registry); this is the exact reverse of the
  order of the starts when the services were started in the order of the registry.
  Whatever the order in which the tasks run and whatever their \<^verbatim>\<open>Stop()\<close> calls return:
  when the coordinator returns, every task has completed, \<^verbatim>\<open>Stop()\<close> having been called
  once on each service dispatched and no service started; and the coordinator does
  return once every task has run.
\<close>

theorem shutdown_order:
  "dispatched (handle_events env evs (boot env configs))
     = rev (list (handle_events env evs (boot env configs)))
   \<and> distinct (list (handle_events env evs (boot env configs)))
   \<and> sorted_wrt (\<lambda>a b. prio (handle_events env evs (boot env configs)) a
                       \<ge> prio (handle_events env evs (boot env configs)) b)
        (dispatched (handle_events env evs (boot env configs)))
   \<and> (starts (trace (handle_events env evs (boot env configs)))
          = list (handle_events env evs (boot env configs))
        \<longrightarrow> dispatched (handle_events env evs (boot env configs))
          = rev (starts (trace (handle_events env evs (boot env configs)))))
   \<and> (\<forall>sched st1. shutdown env' sched (handle_events env evs (boot env configs)) = Some st1
        \<longrightarrow> mset (stops (new_calls (handle_events env evs (boot env configs)) st1))
              = mset (dispatched (handle_events env evs (boot env configs)))
            \<and> starts (new_calls (handle_events env evs (boot env configs)) st1) = [])
   \<and> (\<forall>sched. runs_all sched (length (list (handle_events env evs (boot env configs))))
        \<longrightarrow> shutdown env' sched (handle_events env evs (boot env configs)) \<noteq> None)"
proof -
  let ?st = "handle_events env evs (boot env configs)"
  have "by_priority ?st"
    by (simp add: handle_events_inv boot_inv)
  then have "sorted_wrt (\<lambda>a b. prio ?st a \<le> prio ?st b) (list ?st)"
    by (simp add: by_priority_def sorted_map)
  then have "sorted_wrt (\<lambda>a b. prio ?st a \<ge> prio ?st b) (rev (list ?st))"
    by (simp add: sorted_wrt_rev)
  moreover have "distinct (list ?st)"
    by (simp add: handle_events_distinct boot_inv boot_distinct)
  ultimately show ?thesis
    using shutdown_returns [of env' _ ?st] shutdown_runs_all [of _ ?st env']
    by (simp add: dispatched_rev)
qed

theorem shutdown_order_witness:
  "starts (trace scenario) = list scenario
   \<and> dispatched scenario = [2, 1, 0]
   \<and> dispatched scenario = rev (starts (trace scenario))
   \<and> runs_all [1, 0, 0] (length (list scenario))
   \<and> stopped_by env1 [1, 0, 0] scenario = Some [1, 2, 0]
   \<and> stopped_by env1 [1, 0] scenario = None"
proof -
  note s = shutdown_order [of env0
      "[ev_create (mk_config ''C'' 1), ev_create (mk_config ''A'' 1), ev_create (mk_config ''B'' 2)]"
      "[]" env1, folded scenario_def]
  have l: "list scenario = [0, 1, 2]"
    by code_simp
  have t: "starts (trace scenario) = list scenario"
    by code_simp
  have d: "dispatched scenario = [2, 1, 0]"
    unfolding s [THEN conjunct1] l by simp
  have r: "dispatched scenario = rev (starts (trace scenario))"
    using s t by blast
  have a: "runs_all [1, 0, 0] (length (list scenario))"
    unfolding l by simp
  have "shutdown env1 [1, 0, 0] scenario \<noteq> None"
    using s a by blast
  have o: "stopped_by env1 [1, 0, 0] scenario = Some [1, 2, 0]"
    by code_simp
  have w: "stopped_by env1 [1, 0] scenario = None"
    by code_simp
  from t d r a o w show ?thesis
    by (intro conjI)
qed

text \<open>
  C2 as it is written fails, twice. When \<open>c\<close> of priority 2, then \<open>a\<close> and \<open>b\<close> of
  priority 1 are created, each is started as it is created, so the starts are in the
  order \<open>c\<close>, \<open>a\<close>, \<open>b\<close>. The registry is \<open>a\<close>, \<open>b\<close>, \<open>c\<close> and the dispatches are in the
  order \<open>c\<close>, \<open>b\<close>, \<open>a\<close>: their priorities 2, 1, 1 are not strictly descending, and their
  order is not the reverse \<open>b\<close>, \<open>a\<close>, \<open>c\<close> of the order of the starts.
\<close>

theorem shutdown_strict_counterexample:
  "starts (trace late_low) = [0, 1, 2]
   \<and> dispatched late_low = [0, 2, 1]
   \<and> map (prio late_low) (dispatched late_low) = [2, 1, 1]
   \<and> \<not> sorted_wrt (>) (map (prio late_low) (dispatched late_low))
   \<and> dispatched late_low \<noteq> rev (starts (trace late_low))"
  by code_simp

section \<open>A modification that changes nothing\<close>

text \<open>
  C5. When an event reaches the case of the modifications, a service of that file is
  registered, and the configuration parsed equals the configuration of the first such
  service, the handler leaves the daemon as it found it: the list (no sort), every
  service with its state, configuration and number of restarts, the calls made (no
  \<^verbatim>\<open>Stop()\<close>, no \<^verbatim>\<open>Start()\<close>, no \<^verbatim>\<open>Sort()\<close>) and the lines logged.
\<close>

theorem modify_equal_noop:
  assumes "reaches_modify env ev"
    and "service_of_file (base ev) st = Some v"
    and "Config (heap st v) = parsed ev"
  shows "handle_event env ev st = st"
proof -
  have f: "File (Config (heap st v)) = base ev"
    using assms(2) by (auto simp: service_of_file_def find_Some_iff)
  have "on_modify env (base ev) (parsed ev) st = st"
    unfolding on_modify_def modify_loop_find [of env "base ev" "parsed ev" "list st"]
    using assms(2,3) f by (simp add: service_of_file_def)
  then show ?thesis
    using assms(1) by (simp add: handle_event_def reaches_modify_def)
qed

theorem modify_equal_noop_witness:
  "reaches_modify env0 (ev_modify (mk_config ''x'' 2))
   \<and> service_of_file (base (ev_modify (mk_config ''x'' 2)))
         (handle_events env0 [ev_create (mk_config ''x'' 2)] (boot env0 [])) = Some 0
   \<and> Config (heap (handle_events env0 [ev_create (mk_config ''x'' 2)] (boot env0 [])) 0)
       = parsed (ev_modify (mk_config ''x'' 2))
   \<and> handle_event env0 (ev_modify (mk_config ''x'' 2))
         (handle_events env0 [ev_create (mk_config ''x'' 2)] (boot env0 []))
       = handle_events env0 [ev_create (mk_config ''x'' 2)] (boot env0 [])"
proof -
  let ?st = "handle_events env0 [ev_create (mk_config ''x'' 2)] (boot env0 [])"
  let ?ev = "ev_modify (mk_config ''x'' 2)"
  have a: "reaches_modify env0 ?ev"
    by code_simp
  have b: "service_of_file (base ?ev) ?st = Some 0"
    by code_simp
  have c: "Config (heap ?st 0) = parsed ?ev"
    by code_simp
  from a b c modify_equal_noop [OF a b c] show ?thesis
    by (intro conjI)
qed

section \<open>The control protocol: what each command writes\<close>

subsection \<open>The messages and the return value\<close>

lemma finish_simps [simp]:
  "fst (finish c st) = Return (werr c (length (sent c)))"
  "fst (snd (finish c st)) = c\<lparr>sent := sent c @ [(respEnd, [])]\<rparr>"
  "snd (snd (finish c st)) = st"
  by (simp_all add: finish_def encodeResponse_def Let_def)

lemma encodeResponse_simps [simp]:
  "fst (encodeResponse c t s) = werr c (length (sent c))"
  "snd (encodeResponse c t s) = c\<lparr>sent := sent c @ [(t, s)]\<rparr>"
  by (simp_all add: encodeResponse_def)

lemma no_End_simps [simp]:
  "no_End []" "no_End (m # ms) = (fst m \<noteq> respEnd \<and> no_End ms)"
  "no_End (ms @ ms') = (no_End ms \<and> no_End ms')"
  by (simp_all add: no_End_def)

lemma lookup_Name: "lookup n st = Some v \<Longrightarrow> Name (heap st v) = n \<and> v \<in> set (list st)"
  by (auto simp: lookup_def find_Some_iff)

subsection \<open>The list command\<close>

lemma status_valid: "valid_state (State s) \<Longrightarrow> status env s = Some (status_line env s)"
  by (cases "State s") simp_all

lemma status_invalid: "\<not> valid_state (State s) \<Longrightarrow> status env s = None"
  by (cases "State s") simp_all

lemma list_rows_valid:
  "list_all (\<lambda>v. valid_state (State (heap st v))) vs \<Longrightarrow>
   list_rows env st vs w =
     Inr (w @ concat (map (\<lambda>v. Name (heap st v) @ TAB @ status_line env (heap st v) @ TAB @ NL) vs))"
  by (induction vs arbitrary: w) (simp_all add: status_valid del: status.simps status_line.simps)

lemma list_rows_invalid:
  "\<not> list_all (\<lambda>v. valid_state (State (heap st v))) vs \<Longrightarrow>
   list_rows env st vs w = Inl ''invalid state''"
proof (induction vs arbitrary: w)
  case Nil
  then show ?case by simp
next
  case (Cons v vs)
  show ?case
  proof (cases "valid_state (State (heap st v))")
    case True
    then show ?thesis
      using Cons by (simp add: status_valid del: status.simps status_line.simps)
  next
    case False
    then show ?thesis
      by (simp add: status_invalid del: status.simps)
  qed
qed

lemma serveConn_list:
  assumes "args \<noteq> []" and "ToLower env (args ! 0) = ''list''"
  shows "serveConn env c (Inr args) lines st = switch_cmd env ''list'' None c lines st"
  using assms by (simp add: serveConn_def)

text \<open>
  C8. The \<^verbatim>\<open>list\<close> command, whatever its further arguments: when every registered
  service is in one of the five named states, the response is one \<^verbatim>\<open>Ok\<close> message, the
  table of the services in the order of the registry as the tabwriter formats it, and
  then the end marker. Each row is the name of the service and its status line:
  \<^verbatim>\<open>STOPPED\<close>, \<^verbatim>\<open>STOPPING\<close>, \<^verbatim>\<open>STARTING\<close>, \<^verbatim>\<open>RUNNING since <time>\<close> with no restart,
  \<^verbatim>\<open>RUNNING since <time> - N restarts\<close> with \<open>N > 0\<close> restarts, \<^verbatim>\<open>FAILED - <error>\<close>. When
  some service is in no such state, the command panics and writes nothing: the panic is
  reached for no valid state.
\<close>

theorem list_renders:
  assumes "args \<noteq> []" and "ToLower env (args ! 0) = ''list''"
  shows "(all_valid st \<longrightarrow>
            serveConn env c (Inr args) lines st
              = finish (snd (encodeResponse c respOk (tabwriter env (table env st) @ NL))) st)
         \<and> (\<not> all_valid st \<longrightarrow>
            serveConn env c (Inr args) lines st = (Panic ''invalid state'', c, st))
         \<and> (\<forall>v \<in> set (list st).
              (State (heap st v) = StateStopped \<longrightarrow> status_line env (heap st v) = ''STOPPED'')
            \<and> (State (heap st v) = StateStopping \<longrightarrow> status_line env (heap st v) = ''STOPPING'')
            \<and> (State (heap st v) = StateStarting \<longrightarrow> status_line env (heap st v) = ''STARTING'')
            \<and> (State (heap st v) = StateStarted \<and> Restarts (heap st v) = 0 \<longrightarrow>
                 status_line env (heap st v) = ''RUNNING since '' @ formatTime env (Started (heap st v)))
            \<and> (State (heap st v) = StateStarted \<and> Restarts (heap st v) > 0 \<longrightarrow>
                 status_line env (heap st v) = ''RUNNING since '' @ formatTime env (Started (heap st v))
                    @ '' - '' @ showInt (Restarts (heap st v)) @ '' restarts'')
            \<and> (State (heap st v) = StateFailed \<longrightarrow>
                 status_line env (heap st v) = ''FAILED - '' @ Err (heap st v)))"
proof (intro conjI impI ballI)
  assume "all_valid st"
  then show "serveConn env c (Inr args) lines st
      = finish (snd (encodeResponse c respOk (tabwriter env (table env st) @ NL))) st"
    unfolding serveConn_list [OF assms]
    by (simp add: switch_cmd_def all_valid_def list_rows_valid table_def)
next
  assume "\<not> all_valid st"
  then show "serveConn env c (Inr args) lines st = (Panic ''invalid state'', c, st)"
    unfolding serveConn_list [OF assms]
    by (simp add: switch_cmd_def all_valid_def list_rows_invalid)
qed simp_all

theorem list_renders_witness:
  "all_valid three
   \<and> table env0 three =
       ''SERVICE'' @ TAB @ ''STATUS'' @ TAB @ NL
       @ ''a'' @ TAB @ ''RUNNING since 7 - 2 restarts'' @ TAB @ NL
       @ ''b'' @ TAB @ ''STOPPED'' @ TAB @ NL
       @ ''c'' @ TAB @ ''FAILED - boom'' @ TAB @ NL
   \<and> serveConn env0 conn0 (Inr [''list'']) [] three
       = finish (snd (encodeResponse conn0 respOk (tabwriter env0 (table env0 three) @ NL))) three"
proof -
  have a: "[''list''] \<noteq> []" "ToLower env0 ([''list''] ! 0) = ''list''"
    by code_simp+
  have v: "all_valid three"
    by code_simp
  have t: "table env0 three =
       ''SERVICE'' @ TAB @ ''STATUS'' @ TAB @ NL
       @ ''a'' @ TAB @ ''RUNNING since 7 - 2 restarts'' @ TAB @ NL
       @ ''b'' @ TAB @ ''STOPPED'' @ TAB @ NL
       @ ''c'' @ TAB @ ''FAILED - boom'' @ TAB @ NL"
    by code_simp
  from list_renders [OF a, of three conn0 "[]", THEN conjunct1] v t show ?thesis
    by blast
qed

subsection \<open>The log subscriber\<close>

text \<open>
  C9. The function installed by the \<^verbatim>\<open>log\<close> command reads \<^verbatim>\<open>b[len(b)-1]\<close>: it panics
  with an index out of range exactly when the line delivered is empty. For every other
  line it writes one \<^verbatim>\<open>Ok\<close> message, the prefix in brackets and the line, with a newline
  appended if the last byte of the line is not one.
\<close>

theorem log_monitor_index:
  "(log_monitor env c prefix b = Inl ''index out of range'') = (b = [])
   \<and> (b \<noteq> [] \<longrightarrow>
        log_monitor env c prefix b
          = Inr (snd (encodeResponse c respOk
               (''['' @ prefix @ ''] '' @ b @ (if last b \<noteq> CHR 0x0A then newLine env else [])))))"
proof (cases "b = []")
  case True
  then show ?thesis by (simp add: log_monitor_def index_def)
next
  case False
  then obtain ys y where b: "b = ys @ [y]"
    by (cases b rule: rev_cases) auto
  show ?thesis
    unfolding b by (simp add: log_monitor_def index_def nth_append Let_def)
qed


theorem log_monitor_index_witness:
  "log_monitor env0 conn0 ''out'' [] = Inl ''index out of range''
   \<and> log_monitor env0 conn0 ''out'' ''hello''
       = Inr (conn0\<lparr>sent := [(respOk, ''[out] hello'' @ NL)]\<rparr>)"
proof -
  have e: "newLine env0 = NL" "sent conn0 = []"
    by (simp_all add: env0_def conn0_def)
  from log_monitor_index [of env0 conn0 "''out''" "[]"]
  have 1: "log_monitor env0 conn0 ''out'' [] = Inl ''index out of range''"
    by simp
  from log_monitor_index [of env0 conn0 "''out''" "''hello''"]
  have 2: "log_monitor env0 conn0 ''out'' ''hello''
       = Inr (conn0\<lparr>sent := [(respOk, ''[out] hello'' @ NL)]\<rparr>)"
    by (simp add: e)
  from 1 2 show ?thesis
    by (intro conjI)
qed

subsection \<open>The restart command\<close>

lemma serveConn_restart:
  assumes "args \<noteq> []" and "ToLower env (args ! 0) = ''restart''"
  shows "serveConn env c (Inr args) lines st =
     (if length args \<noteq> 2 then
        finish (snd (encodeResponse c respErr
           (''command restart requires exactly one argument'' @ NL))) st
      else case lookup (args ! 1) st of
             None \<Rightarrow> finish (snd (encodeResponse c respErr (''no service named '' @ args ! 1 @ NL))) st
           | Some v \<Rightarrow> switch_cmd env ''restart'' (Some v) c lines st)"
  using assms by (simp add: serveConn_def switch_cmd_def split: option.splits)

lemma stopService_failed:
  "fst (Stop env v st) = Some e \<Longrightarrow>
   stopService env c v st =
     (False, werr c (Suc (length (sent c))),
      c\<lparr>sent := sent c @ [(respOk, ''stopping '' @ Name (heap st v) @ NL),
                             (respErr, ''error stopping '' @ Name (heap st v) @ '': '' @ e @ NL)]\<rparr>,
      snd (Stop env v st))"
  by (simp add: stopService_def Let_def)

lemma stopService_stopped:
  "fst (Stop env v st) = None \<Longrightarrow>
   stopService env c v st =
     (True, werr c (Suc (length (sent c))),
      c\<lparr>sent := sent c @ [(respOk, ''stopping '' @ Name (heap st v) @ NL),
                             (respOk, ''stopped '' @ Name (heap st v) @ NL)]\<rparr>,
      snd (Stop env v st))"
  by (simp add: stopService_def Let_def)

lemma startService_shape:
  "snd (snd (startService env c v st)) = snd (Start env v st)
   \<and> sent (fst (snd (startService env c v st))) =
       sent c @ [(respOk, ''starting '' @ Name (heap st v) @ NL),
                 (case fst (Start env v st) of
                    Some e \<Rightarrow> (respErr, ''error starting '' @ Name (heap st v) @ '': '' @ e @ NL)
                  | None \<Rightarrow> (respOk, ''started '' @ Name (heap st v) @ NL))]
   \<and> werr (fst (snd (startService env c v st))) = werr c"
  by (simp add: startService_def Let_def split: option.splits)

lemma new_calls_simps [simp]:
  "new_calls st st = []"
  "new_calls st (snd (Stop env v st)) = [CallStop v]"
  "new_calls st (snd (Start env v st)) = [CallStart v]"
  "new_calls st (snd (Start env w (snd (Stop env v st)))) = [CallStop v, CallStart w]"
  by (simp_all add: new_calls_def)

text \<open>
  C10. A \<^verbatim>\<open>restart\<close> command with one argument, the name of a registered service that is
  not started: \<^verbatim>\<open>serveConn\<close> writes the end marker and nothing else, and leaves the
  daemon as it found it, so that there is no call of \<^verbatim>\<open>Stop()\<close> or \<^verbatim>\<open>Start()\<close> and the
  services and the registry are unchanged.
\<close>

theorem restart_not_started:
  assumes "length args = 2" and "ToLower env (args ! 0) = ''restart''"
    and "lookup (args ! 1) st = Some v" and "State (heap st v) \<noteq> StateStarted"
  shows "serveConn env c (Inr args) lines st
           = (Return (werr c (length (sent c))), c\<lparr>sent := sent c @ [(respEnd, [])]\<rparr>, st)"
proof -
  have "args \<noteq> []" using assms(1) by auto
  then show ?thesis
    using assms
    by (simp add: serveConn_restart switch_cmd_def finish_def encodeResponse_def Let_def)
qed

theorem restart_not_started_witness:
  "lookup ([''restart'', ''b''] ! 1) three = Some 1
   \<and> State (heap three 1) \<noteq> StateStarted
   \<and> serveConn env0 conn0 (Inr [''restart'', ''b'']) [] three
       = (Return None, conn0\<lparr>sent := [(respEnd, [])]\<rparr>, three)"
proof -
  have a: "length [''restart'', ''b''] = 2" "ToLower env0 ([''restart'', ''b''] ! 0) = ''restart''"
    by code_simp+
  have l: "lookup ([''restart'', ''b''] ! 1) three = Some 1"
    by code_simp
  have s: "State (heap three 1) \<noteq> StateStarted"
    by code_simp
  have w: "werr conn0 k = None" "sent conn0 = []" for k
    by (simp_all add: conn0_def)
  from restart_not_started [OF a l s, of conn0 "[]"] l s show ?thesis
    by (simp add: w)
qed

text \<open>
  C4. For every \<^verbatim>\<open>restart\<close> request: if \<^verbatim>\<open>Start()\<close> is called on a service, then the
  request has named that service, the service was started, \<^verbatim>\<open>Stop()\<close> was called on it
  first and returned no error, and these two are the only calls. If the stop of the
  service named fails, \<^verbatim>\<open>Stop()\<close> is the only call, the daemon is left as that call
  left it, and the client is sent the error of the stop in an \<^verbatim>\<open>Err\<close> message, between
  the notice of the stop and the end marker.
\<close>

theorem restart_start_only_after_stop:
  assumes "args \<noteq> []" and "ToLower env (args ! 0) = ''restart''"
  shows
    "(\<forall>s. CallStart s \<in> set (new_calls st (snd (snd (serveConn env c (Inr args) lines st)))) \<longrightarrow>
        length args = 2 \<and> lookup (args ! 1) st = Some s \<and> State (heap st s) = StateStarted
        \<and> fst (Stop env s st) = None
        \<and> new_calls st (snd (snd (serveConn env c (Inr args) lines st))) = [CallStop s, CallStart s])
     \<and> (\<forall>s e. length args = 2 \<and> lookup (args ! 1) st = Some s \<and> State (heap st s) = StateStarted
        \<and> fst (Stop env s st) = Some e \<longrightarrow>
        snd (snd (serveConn env c (Inr args) lines st)) = snd (Stop env s st)
        \<and> new_calls st (snd (snd (serveConn env c (Inr args) lines st))) = [CallStop s]
        \<and> new_msgs c (fst (snd (serveConn env c (Inr args) lines st))) =
            [(respOk, ''stopping '' @ args ! 1 @ NL),
             (respErr, ''error stopping '' @ args ! 1 @ '': '' @ e @ NL),
             (respEnd, [])])"
proof (rule conjI; intro allI impI)
  fix s
  assume a: "CallStart s \<in> set (new_calls st (snd (snd (serveConn env c (Inr args) lines st))))"
  show "length args = 2 \<and> lookup (args ! 1) st = Some s \<and> State (heap st s) = StateStarted
        \<and> fst (Stop env s st) = None
        \<and> new_calls st (snd (snd (serveConn env c (Inr args) lines st))) = [CallStop s, CallStart s]"
  proof (cases "length args = 2")
    case False
    then show ?thesis
      using a by (simp add: serveConn_restart [OF assms])
  next
    case True
    show ?thesis
    proof (cases "lookup (args ! 1) st")
      case None
      then show ?thesis
        using a True by (simp add: serveConn_restart [OF assms])
    next
      case (Some v)
      show ?thesis
      proof (cases "State (heap st v) = StateStarted")
        case False
        then show ?thesis
          using a True Some by (simp add: serveConn_restart [OF assms] switch_cmd_def)
      next
        case started: True
        show ?thesis
        proof (cases "fst (Stop env v st)")
          case None
          then show ?thesis
            using a True Some started
            by (simp add: serveConn_restart [OF assms] switch_cmd_def stopService_stopped
                startService_shape Let_def)
        next
          case (Some e)
          then show ?thesis
            using a True \<open>lookup (args ! 1) st = Some v\<close> started
            by (simp add: serveConn_restart [OF assms] switch_cmd_def stopService_failed Let_def)
        qed
      qed
    qed
  qed
next
  fix s e
  assume b: "length args = 2 \<and> lookup (args ! 1) st = Some s \<and> State (heap st s) = StateStarted
        \<and> fst (Stop env s st) = Some e"
  then have n: "Name (heap st s) = args ! 1"
    using lookup_Name by blast
  show "snd (snd (serveConn env c (Inr args) lines st)) = snd (Stop env s st)
        \<and> new_calls st (snd (snd (serveConn env c (Inr args) lines st))) = [CallStop s]
        \<and> new_msgs c (fst (snd (serveConn env c (Inr args) lines st))) =
            [(respOk, ''stopping '' @ args ! 1 @ NL),
             (respErr, ''error stopping '' @ args ! 1 @ '': '' @ e @ NL),
             (respEnd, [])]"
    using b n
    by (simp add: serveConn_restart [OF assms] switch_cmd_def stopService_failed Let_def
        new_msgs_def)
qed

theorem restart_start_only_after_stop_witness:
  "lookup ([''restart'', ''x''] ! 1) one_started = Some 0
   \<and> State (heap one_started 0) = StateStarted
   \<and> fst (Stop env1 0 one_started) = Some ''boom''
   \<and> new_calls one_started
        (snd (snd (serveConn env1 conn0 (Inr [''restart'', ''x'']) [] one_started))) = [CallStop 0]
   \<and> new_msgs conn0 (fst (snd (serveConn env1 conn0 (Inr [''restart'', ''x'']) [] one_started)))
       = [(respOk, ''stopping x'' @ NL), (respErr, ''error stopping x: boom'' @ NL), (respEnd, [])]
   \<and> State (heap (snd (snd (serveConn env1 conn0 (Inr [''restart'', ''x'']) [] one_started))) 0)
       = StateFailed"
proof -
  have a: "[''restart'', ''x''] \<noteq> []" "ToLower env1 ([''restart'', ''x''] ! 0) = ''restart''"
    by code_simp+
  have l: "lookup ([''restart'', ''x''] ! 1) one_started = Some 0"
    by code_simp
  have s: "State (heap one_started 0) = StateStarted"
    by code_simp
  have f: "fst (Stop env1 0 one_started) = Some ''boom''"
    by code_simp
  have k: "State (heap (snd (Stop env1 0 one_started)) 0) = StateFailed"
    by code_simp
  have n: "length [''restart'', ''x''] = 2"
    by simp
  from restart_start_only_after_stop [OF a, of one_started conn0 "[]", THEN conjunct2,
      rule_format, of 0 "''boom''"] n l s f
  have "snd (snd (serveConn env1 conn0 (Inr [''restart'', ''x'']) [] one_started))
          = snd (Stop env1 0 one_started)
        \<and> new_calls one_started
            (snd (snd (serveConn env1 conn0 (Inr [''restart'', ''x'']) [] one_started))) = [CallStop 0]
        \<and> new_msgs conn0 (fst (snd (serveConn env1 conn0 (Inr [''restart'', ''x'']) [] one_started)))
            = [(respOk, ''stopping '' @ [''restart'', ''x''] ! 1 @ NL),
               (respErr, ''error stopping '' @ [''restart'', ''x''] ! 1 @ '': '' @ ''boom'' @ NL),
               (respEnd, [])]"
    by blast
  with l s f k show ?thesis
    by simp
qed

subsection \<open>The end marker\<close>

lemma ends_finish:
  "sent c1 = sent c @ ms \<Longrightarrow> no_End ms \<Longrightarrow> ends c (finish c1 st1)"
  by (simp add: ends_def new_msgs_def one_End_last_def no_End_def)

lemma ends_one_End_last:
  "ends c r \<Longrightarrow>
   sent (fst (snd r)) = sent c @ new_msgs c (fst (snd r)) \<and> one_End_last (new_msgs c (fst (snd r)))"
  by (simp add: ends_def)

lemma stopService_shape:
  "sent (fst (snd (snd (stopService env c v st)))) =
       sent c @ [(respOk, ''stopping '' @ Name (heap st v) @ NL),
                 (case fst (Stop env v st) of
                    Some e \<Rightarrow> (respErr, ''error stopping '' @ Name (heap st v) @ '': '' @ e @ NL)
                  | None \<Rightarrow> (respOk, ''stopped '' @ Name (heap st v) @ NL))]
   \<and> fst (stopService env c v st) = (fst (Stop env v st) = None)"
  by (simp add: stopService_def Let_def split: option.splits)

lemma ends_start:
  "ends c (switch_cmd env ''start'' (Some v) c lines st)"
  by (auto simp: switch_cmd_def Let_def startService_shape intro!: ends_finish split: option.splits)

lemma ends_stop:
  "ends c (switch_cmd env ''stop'' (Some v) c lines st)"
  by (auto simp: switch_cmd_def Let_def stopService_shape intro!: ends_finish split: option.splits)

lemma ends_restart:
  "ends c (switch_cmd env ''restart'' (Some v) c lines st)"
  by (auto simp: switch_cmd_def Let_def stopService_shape startService_shape
      intro!: ends_finish split: option.splits)

lemma ends_empty: "ends c (switch_cmd env [] t c1 lines st) = ends c (finish c1 st)"
  by (simp add: switch_cmd_def)

lemma ends_list:
  "all_valid st \<Longrightarrow> ends c (switch_cmd env ''list'' None c lines st)"
  by (auto simp: switch_cmd_def all_valid_def list_rows_valid intro!: ends_finish)

lemma ends_log:
  "State (heap st v) \<noteq> StateStarted \<or> monitor (heap st v) \<Longrightarrow>
   ends c (switch_cmd env ''log'' (Some v) c lines st)"
  by (auto simp: switch_cmd_def intro!: ends_finish)

lemma ends_unknown:
  "\<not> known_cmd cmd \<Longrightarrow> werr c (length (sent c)) = None \<Longrightarrow>
   ends c (switch_cmd env cmd t c lines st)"
  by (auto simp: switch_cmd_def known_cmd_def Let_def intro!: ends_finish)

lemma unknown_failed:
  "\<not> known_cmd cmd \<Longrightarrow> werr c (length (sent c)) = Some e \<Longrightarrow>
   switch_cmd env cmd t c lines st =
     (Return (Some e),
      c\<lparr>sent := sent c @ [(respErr, ''unknown command '' @ cmd @ '' - '' @ help_text env @ NL)]\<rparr>,
      st)"
  by (simp add: switch_cmd_def known_cmd_def Let_def)

lemma log_monitor_sent:
  "log_monitor env c p b = Inr c1 \<Longrightarrow> \<exists>m. sent c1 = sent c @ [m] \<and> fst m = respOk"
  by (auto simp: log_monitor_def Let_def split: option.splits)

lemma stream_sent:
  "\<exists>ms. sent (snd (stream env ls c)) = sent c @ ms \<and> no_End ms"
proof (induction ls arbitrary: c)
  case Nil
  then show ?case by simp
next
  case (Cons l ls)
  show ?case
  proof (cases "log_monitor env c (fst l) (snd l)")
    case (Inl p)
    then show ?thesis by simp
  next
    case (Inr c1)
    from log_monitor_sent [OF Inr] obtain m where m: "sent c1 = sent c @ [m]" "fst m = respOk"
      by blast
    from Cons.IH [of c1] obtain ms where "sent (snd (stream env ls c1)) = sent c1 @ ms" "no_End ms"
      by blast
    with m Inr show ?thesis
      by (intro exI [of _ "m # ms"]) simp
  qed
qed

lemma log_installed:
  assumes "State (heap st v) = StateStarted" and "\<not> monitor (heap st v)"
  shows "\<exists>ms. sent (fst (snd (switch_cmd env ''log'' (Some v) c lines st))) = sent c @ ms \<and> no_End ms"
  using assms stream_sent [of env lines c]
  by (auto simp: switch_cmd_def Let_def split: option.splits)

lemma serveConn_named:
  assumes "args \<noteq> []" and "named_cmd (ToLower env (args ! 0))"
  shows "serveConn env c (Inr args) lines st =
     (if length args \<noteq> 2 then
        switch_cmd env [] None
          (snd (encodeResponse c respErr
             (''command '' @ ToLower env (args ! 0) @ '' requires exactly one argument'' @ NL)))
          lines st
      else case lookup (args ! 1) st of
             None \<Rightarrow>
               switch_cmd env [] None
                 (snd (encodeResponse c respErr (''no service named '' @ args ! 1 @ NL))) lines st
           | Some v \<Rightarrow> switch_cmd env (ToLower env (args ! 0)) (Some v) c lines st)"
  using assms unfolding serveConn_def named_cmd_def Let_def by simp

lemma serveConn_other:
  assumes "args \<noteq> []" and "\<not> named_cmd (ToLower env (args ! 0))"
  shows "serveConn env c (Inr args) lines st = switch_cmd env (ToLower env (args ! 0)) None c lines st"
  using assms unfolding serveConn_def named_cmd_def Let_def by simp

lemma ends_named:
  assumes "named_cmd cmd" and "cmd \<noteq> ''log'' \<or> State (heap st v) \<noteq> StateStarted \<or> monitor (heap st v)"
  shows "ends c (switch_cmd env cmd (Some v) c lines st)"
  using assms ends_start ends_stop ends_restart ends_log unfolding named_cmd_def by metis

lemma ends_error:
  "ends c (switch_cmd env [] None (c\<lparr>sent := sent c @ [(respErr, s)]\<rparr>) lines st)"
  by (simp add: ends_empty ends_finish [of _ _ "[(respErr, s)]"])

lemma serveConn_ends:
  assumes "ToLower env (args ! 0) = ''list'' \<longrightarrow> all_valid st"
    and "\<not> installs_log env args st"
    and "args = [] \<or> known_cmd (ToLower env (args ! 0)) \<or> werr c (length (sent c)) = None"
  shows "ends c (serveConn env c (Inr args) lines st)"
proof (cases "args = []")
  case True
  then show ?thesis
    by (simp add: serveConn_def ends_finish [of _ _ "[]"])
next
  case False
  show ?thesis
  proof (cases "named_cmd (ToLower env (args ! 0))")
    case True
    show ?thesis
    proof (cases "length args = 2")
      case False
      then show ?thesis
        unfolding serveConn_named [OF \<open>args \<noteq> []\<close> True] by (simp add: ends_error)
    next
      case two: True
      show ?thesis
      proof (cases "lookup (args ! 1) st")
        case None
        then show ?thesis
          unfolding serveConn_named [OF \<open>args \<noteq> []\<close> True] using two by (simp add: ends_error)
      next
        case (Some v)
        have "ToLower env (args ! 0) \<noteq> ''log'' \<or> State (heap st v) \<noteq> StateStarted \<or> monitor (heap st v)"
          using assms(2) two Some by (auto simp: installs_log_def)
        then show ?thesis
          unfolding serveConn_named [OF \<open>args \<noteq> []\<close> True] using two Some True
          by (simp add: ends_named)
      qed
    qed
  next
    case other: False
    show ?thesis
    proof (cases "known_cmd (ToLower env (args ! 0))")
      case True
      then have "ToLower env (args ! 0) = [] \<or> ToLower env (args ! 0) = ''list''"
        using other by (auto simp: known_cmd_def named_cmd_def)
      then show ?thesis
        unfolding serveConn_other [OF \<open>args \<noteq> []\<close> other]
        using assms(1) by (auto simp: ends_empty ends_list ends_finish [of _ _ "[]"])
    next
      case False
      then show ?thesis
        unfolding serveConn_other [OF \<open>args \<noteq> []\<close> other]
        using assms(3) \<open>args \<noteq> []\<close> by (simp add: ends_unknown)
    qed
  qed
qed

lemma serveConn_log_installed:
  assumes "installs_log env args st"
  shows "\<exists>ms. sent (fst (snd (serveConn env c (Inr args) lines st))) = sent c @ ms \<and> no_End ms"
proof -
  from assms obtain v where v: "length args = 2" "ToLower env (args ! 0) = ''log''"
    "lookup (args ! 1) st = Some v" "State (heap st v) = StateStarted" "\<not> monitor (heap st v)"
    by (auto simp: installs_log_def split: option.splits)
  then have "args \<noteq> []" "named_cmd (ToLower env (args ! 0))"
    by (auto simp: named_cmd_def)
  then show ?thesis
    using v log_installed [OF v(4,5), of env c lines] by (simp add: serveConn_named)
qed

lemma serveConn_unknown_failed:
  assumes "args \<noteq> []" and "\<not> known_cmd (ToLower env (args ! 0))"
    and "werr c (length (sent c)) = Some e"
  shows "serveConn env c (Inr args) lines st =
     (Return (Some e),
      c\<lparr>sent := sent c @ [(respErr, ''unknown command '' @ ToLower env (args ! 0) @ '' - ''
                                      @ help_text env @ NL)]\<rparr>,
      st)"
proof -
  have "\<not> named_cmd (ToLower env (args ! 0))"
    using assms(2) by (auto simp: known_cmd_def named_cmd_def)
  then show ?thesis
    using assms by (simp add: serveConn_other unknown_failed)
qed

lemma serveConn_list_panic:
  assumes "args \<noteq> []" and "ToLower env (args ! 0) = ''list''" and "\<not> all_valid st"
  shows "serveConn env c (Inr args) lines st = (Panic ''invalid state'', c, st)"
  using assms(3) unfolding serveConn_list [OF assms(1,2)]
  by (simp add: switch_cmd_def all_valid_def list_rows_invalid)

text \<open>
  C6, as amended. Take any decoded request, and the messages that \<^verbatim>\<open>serveConn\<close> passes
  to \<^verbatim>\<open>encodeResponse\<close> for it, whether or not the encoder can write them. If the
  request installs a log subscription, none of them is an end marker. If the command is
  \<^verbatim>\<open>list\<close> and some registered service is in none of the five named states,
  \<^verbatim>\<open>serveConn\<close> panics and has passed no message. If the command is unknown and
  \<^verbatim>\<open>encodeResponse\<close> returns an error for its error response, that response is the
  only message: \<^verbatim>\<open>serveConn\<close> returns that error and passes no end marker. In every
  other case (the known commands, their errors for a wrong number of arguments or an
  unknown name, the empty list of arguments, and the unknown command for whose error
  response \<^verbatim>\<open>encodeResponse\<close> returns no error) the last message passed is the end
  marker and no message before it carries the end tag.
\<close>

theorem response_end:
  "sent (fst (snd (serveConn env c (Inr args) lines st)))
           = sent c @ new_msgs c (fst (snd (serveConn env c (Inr args) lines st)))
     \<and> (if installs_log env args st then
          no_End (new_msgs c (fst (snd (serveConn env c (Inr args) lines st))))
        else if args \<noteq> [] \<and> ToLower env (args ! 0) = ''list'' \<and> \<not> all_valid st then
          fst (serveConn env c (Inr args) lines st) = Panic ''invalid state''
          \<and> new_msgs c (fst (snd (serveConn env c (Inr args) lines st))) = []
        else if args \<noteq> [] \<and> \<not> known_cmd (ToLower env (args ! 0))
                \<and> werr c (length (sent c)) \<noteq> None then
          fst (serveConn env c (Inr args) lines st) = Return (werr c (length (sent c)))
          \<and> new_msgs c (fst (snd (serveConn env c (Inr args) lines st)))
              = [(respErr, ''unknown command '' @ ToLower env (args ! 0) @ '' - ''
                           @ help_text env @ NL)]
        else one_End_last (new_msgs c (fst (snd (serveConn env c (Inr args) lines st)))))"
proof (cases "installs_log env args st")
  case True
  from serveConn_log_installed [OF True, of c lines] show ?thesis
    using True by (auto simp: new_msgs_def)
next
  case False
  show ?thesis
  proof (cases "args \<noteq> [] \<and> ToLower env (args ! 0) = ''list'' \<and> \<not> all_valid st")
    case True
    then have "serveConn env c (Inr args) lines st = (Panic ''invalid state'', c, st)"
      by (simp add: serveConn_list_panic)
    with True False show ?thesis
      by (simp add: new_msgs_def)
  next
    case valid: False
    show ?thesis
    proof (cases "args \<noteq> [] \<and> \<not> known_cmd (ToLower env (args ! 0))
                  \<and> werr c (length (sent c)) \<noteq> None")
      case True
      then obtain e where "werr c (length (sent c)) = Some e"
        by auto
      moreover have "ToLower env (args ! 0) \<noteq> ''list''"
        using True by (auto simp: known_cmd_def)
      ultimately show ?thesis
        using True False by (simp add: serveConn_unknown_failed new_msgs_def)
    next
      case no: False
      have "ends c (serveConn env c (Inr args) lines st)"
      proof (cases "args = []")
        case True
        then show ?thesis
          by (simp add: serveConn_def ends_finish [of _ _ "[]"])
      next
        case False
        with valid no \<open>\<not> installs_log env args st\<close> show ?thesis
          by (intro serveConn_ends) auto
      qed
      from ends_one_End_last [OF this] show ?thesis
        using False valid no by auto
    qed
  qed
qed

theorem response_end_witness:
  "\<not> installs_log env0 [''stop'', ''nosuch''] broken
   \<and> \<not> all_valid broken
   \<and> one_End_last (new_msgs conn0 (fst (snd (serveConn env0 conn0 (Inr [''stop'', ''nosuch'']) [] broken))))
   \<and> new_msgs conn0 (fst (snd (serveConn env0 conn0 (Inr [''stop'', ''nosuch'']) [] broken)))
       = [(respErr, ''no service named nosuch'' @ NL), (respEnd, [])]"
proof -
  have v: "\<not> all_valid broken"
    by code_simp
  have i: "\<not> installs_log env0 [''stop'', ''nosuch''] broken"
    by code_simp
  have k: "known_cmd (ToLower env0 ([''stop'', ''nosuch''] ! 0))"
    "ToLower env0 ([''stop'', ''nosuch''] ! 0) \<noteq> ''list''"
    by code_simp+
  have m: "new_msgs conn0 (fst (snd (serveConn env0 conn0 (Inr [''stop'', ''nosuch'']) [] broken)))
       = [(respErr, ''no service named nosuch'' @ NL), (respEnd, [])]"
    by code_simp
  from response_end [of env0 conn0 "[''stop'', ''nosuch'']" "[]" broken, THEN conjunct2] i k
  have "one_End_last (new_msgs conn0 (fst (snd (serveConn env0 conn0 (Inr [''stop'', ''nosuch'']) [] broken))))"
    by simp
  with v i m show ?thesis
    by (intro conjI)
qed

text \<open>
  C6 as it is written fails, in two ways. On a connection where \<^verbatim>\<open>encodeResponse\<close>
  returns an error, the unknown command \<^verbatim>\<open>bogus\<close> has its error response passed and no
  end marker, \<^verbatim>\<open>serveConn\<close> returning the error. And the \<^verbatim>\<open>list\<close> command, on a
  registry where a service is in none of the five named states, panics: no message is
  passed, no end marker among them.
\<close>

theorem response_end_counterexample:
  "\<not> installs_log env0 [''bogus''] three
   \<and> serveConn env0 conn1 (Inr [''bogus'']) [] three
       = (Return (Some ''broken pipe''),
          conn1\<lparr>sent := [(respErr, ''unknown command bogus - help'' @ NL)]\<rparr>, three)
   \<and> \<not> one_End_last (new_msgs conn1 (fst (snd (serveConn env0 conn1 (Inr [''bogus'']) [] three))))
   \<and> \<not> installs_log env0 [''list''] broken
   \<and> serveConn env0 conn0 (Inr [''list'']) [] broken = (Panic ''invalid state'', conn0, broken)
   \<and> \<not> one_End_last (new_msgs conn0 (fst (snd (serveConn env0 conn0 (Inr [''list'']) [] broken))))"
proof -
  have i: "\<not> installs_log env0 [''bogus''] three"
    by code_simp
  have s: "serveConn env0 conn1 (Inr [''bogus'']) [] three
       = (Return (Some ''broken pipe''),
          conn1\<lparr>sent := [(respErr, ''unknown command bogus - help'' @ NL)]\<rparr>, three)"
    by (simp add: serveConn_def switch_cmd_def env0_def conn1_def Let_def)
  have n: "\<not> one_End_last (new_msgs conn1 (fst (snd (serveConn env0 conn1 (Inr [''bogus'']) [] three))))"
    unfolding s by (simp add: new_msgs_def one_End_last_def conn1_def)
  have j: "\<not> installs_log env0 [''list''] broken"
    by code_simp
  have "\<not> all_valid broken"
    by code_simp
  then have p: "serveConn env0 conn0 (Inr [''list'']) [] broken = (Panic ''invalid state'', conn0, broken)"
    by (intro serveConn_list_panic) (simp_all add: env0_def)
  have q: "\<not> one_End_last (new_msgs conn0 (fst (snd (serveConn env0 conn0 (Inr [''list'']) [] broken))))"
    unfolding p by (simp add: new_msgs_def one_End_last_def)
  from i s n j p q show ?thesis
    by (intro conjI)
qed

section \<open>After the quit signals\<close>

subsection \<open>No command changes the list\<close>

lemma list_set_monitor [simp]: "list (set_monitor v b st) = list st"
  by (simp add: set_monitor_def)

lemma list_startService [simp]: "list (snd (snd (startService env c v st))) = list st"
  by (simp add: startService_shape)

lemma list_stopService [simp]: "list (snd (snd (snd (stopService env c v st)))) = list st"
  by (simp add: stopService_def Let_def split: option.splits)

lemma list_switch_cmd: "list (snd (snd (switch_cmd env cmd t c lines st))) = list st"
  by (simp add: switch_cmd_def Let_def split: option.splits sum.splits)

lemma list_serveConn: "list (snd (snd (serveConn env c req lines st))) = list st"
  by (simp add: serveConn_def Let_def list_switch_cmd split: sum.splits option.splits)

lemma list_shutdown: "shutdown env sched st = Some d \<Longrightarrow> list d = list st"
  by (simp add: shutdown_returns)

subsection \<open>The loops that have sent their signal are gone\<close>

lemma step_quiet: "quiet s \<Longrightarrow> step env a s = Some s1 \<Longrightarrow> quiet s1"
  by (cases a) (auto simp: quiet_def Let_def split: if_splits list.splits option.splits)

lemma run_quiet: "quiet s \<Longrightarrow> run env acts s = Some s1 \<Longrightarrow> quiet s1"
proof (induction acts arbitrary: s)
  case Nil
  then show ?case by simp
next
  case (Cons a acts)
  then show ?case
    by (auto split: option.splits dest: step_quiet)
qed

lemma quiet_sys_of: "quiet (sys_of d)"
  by (simp add: quiet_def sys_of_def)

lemma step_frozen:
  "quiet s \<Longrightarrow> acked s \<Longrightarrow> step env a s = Some s1 \<Longrightarrow>
   acked s1 \<and> list (dstate s1) = list (dstate s)"
  by (cases a)
     (auto simp: quiet_def Let_def list_serveConn list_shutdown
        split: if_splits list.splits option.splits)

lemma run_frozen:
  "quiet s \<Longrightarrow> acked s \<Longrightarrow> run env acts s = Some s1 \<Longrightarrow> list (dstate s1) = list (dstate s)"
proof (induction acts arbitrary: s)
  case Nil
  then show ?case by simp
next
  case (Cons a acts)
  from Cons.prems obtain s2 where s2: "step env a s = Some s2" "run env acts s2 = Some s1"
    by (auto split: option.splits)
  from step_frozen [OF Cons.prems(1,2) s2(1)] step_quiet [OF Cons.prems(1) s2(1)]
  have "acked s2" "list (dstate s2) = list (dstate s)" "quiet s2"
    by simp_all
  with Cons.IH [OF _ _ s2(2)] show ?case
    by simp
qed

text \<open>
  C7, as amended. In every run of the daemon, under every schedule: no file event is
  handled after the watcher has sent \<^verbatim>\<open>stopped\<close>, and none can be, the watcher having
  left its loop; no connection is dispatched to \<^verbatim>\<open>serveConn\<close> after the server has sent
  \<^verbatim>\<open>stopped\<close>, and none can be; and once \<^verbatim>\<open>daemonMain\<close> has received both values, both
  have been sent and the list of the registry stays as it is, whatever happens next.
  Nothing is said of the fields of the services: a connection dispatched before the
  server sent \<^verbatim>\<open>stopped\<close> is served by a goroutine that nobody waits for.
\<close>

theorem quit_stops_loops:
  assumes "run env acts (sys_of d) = Some s"
  shows "\<not> late_event s \<and> \<not> late_dispatch s
     \<and> (watcher_stopped s \<longrightarrow> (\<forall>ev. step env (WatcherEvent ev) s = None))
     \<and> (server_stopped s \<longrightarrow> step env Dispatch s = None)
     \<and> (acked s \<longrightarrow> watcher_stopped s \<and> server_stopped s
          \<and> (\<forall>more s1. run env more s = Some s1 \<longrightarrow> list (dstate s1) = list (dstate s)))"
proof -
  have q: "quiet s"
    using run_quiet [OF quiet_sys_of assms] .
  then have "acked s \<longrightarrow> (\<forall>more s1. run env more s = Some s1 \<longrightarrow> list (dstate s1) = list (dstate s))"
    using run_frozen by blast
  with q show ?thesis
    by (simp add: quiet_def)
qed

theorem quit_stops_loops_witness:
  "observe (run env0 [Signal, WatcherQuit, ServerQuit, Acks] (sys_of one_started)) 0
     = Some (True, False, False, StateStarted)
   \<and> (\<exists>s. run env0 [Signal, WatcherQuit, ServerQuit, Acks] (sys_of one_started) = Some s
          \<and> step env0 (WatcherEvent (ev_delete (mk_config ''x'' 2))) s = None
          \<and> step env0 Dispatch s = None)"
proof -
  have o: "observe (run env0 [Signal, WatcherQuit, ServerQuit, Acks] (sys_of one_started)) 0
     = Some (True, False, False, StateStarted)"
    by code_simp
  then obtain s where s: "run env0 [Signal, WatcherQuit, ServerQuit, Acks] (sys_of one_started) = Some s"
    and v: "acked s"
    by (auto simp: observe_def view_def split: option.splits)
  from quit_stops_loops [OF s] v
  have "step env0 (WatcherEvent (ev_delete (mk_config ''x'' 2))) s = None"
    and "step env0 Dispatch s = None"
    by blast+
  with o s show ?thesis
    by blast
qed

text \<open>
  C7 as it is written fails. A connection with the command \<^verbatim>\<open>stop x\<close> is accepted and
  dispatched; then the signal arrives, the watcher and the server send \<^verbatim>\<open>stopped\<close> and
  leave their loops, and \<^verbatim>\<open>daemonMain\<close> receives both values; the service \<open>x\<close> is still
  started. The goroutine of the connection runs now: \<^verbatim>\<open>serveConn\<close> calls \<^verbatim>\<open>Stop()\<close> and
  the service is stopped, after both acknowledgments and before the process has ended.
\<close>

theorem late_serve_counterexample:
  "observe (run env0
      [Accept (conn0, Inr [''stop'', ''x''], []), Dispatch, Signal, WatcherQuit, ServerQuit, Acks]
      (sys_of one_started)) 0
     = Some (True, False, False, StateStarted)
   \<and> observe (run env0
      [Accept (conn0, Inr [''stop'', ''x''], []), Dispatch, Signal, WatcherQuit, ServerQuit, Acks,
       Serve 0]
      (sys_of one_started)) 0
     = Some (True, True, False, StateStopped)"
  by code_simp

end
